theory Spec2Isabelle
  imports
    Main
    "HOL-Library.Char_ord"
    "HOL-Library.List_Lexorder"
    "HOL-Library.Product_Lexorder"
    "HOL-Library.Multiset"
    "HOL-Library.AList"
begin

section \<open>Object metadata and version-control headers\<close>

text \<open>
  One physical backend object, read as one version of a logical key. The struct is declared
  in the \<open>data\<close> package; the fields kept here are the ones the layer code reads. Go strings
  are byte strings compared bytewise, which is the lexicographic order on \<open>char list\<close>.
  \<open>CreationEpoch\<close> is a \<open>uint64\<close> that the code only compares, so it is a natural number.
  \<open>Headers\<close> is a Go \<open>map[string]string\<close>.
\<close>

record ObjectInfo =
  ID :: string
  Name :: string
  CreationEpoch :: nat
  Headers :: "string \<rightharpoonup> string"
  IsDir :: bool

text \<open>Reading a Go map at a missing key gives the empty string.\<close>

definition hdr :: "ObjectInfo \<Rightarrow> string \<Rightarrow> string" where
  "hdr oi k = (case Headers oi k of None \<Rightarrow> [] | Some s \<Rightarrow> s)"

text \<open>
  Modelled from the spec: \<open>ObjectInfo.Version()\<close> is declared outside the given sources. The
  version identifier is the backend-assigned id of the physical object, rendered as a string.
\<close>

definition Version :: "ObjectInfo \<Rightarrow> string" where
  "Version oi = ID oi"

abbreviation unversionedObjectVersionID :: string where
  "unversionedObjectVersionID \<equiv> ''null''"
abbreviation objectSystemAttributeName :: string where
  "objectSystemAttributeName \<equiv> ''S3-System-name''"
abbreviation attrVersionsIgnore :: string where
  "attrVersionsIgnore \<equiv> ''S3-Versions-ignore''"
abbreviation versionsDelAttr :: string where
  "versionsDelAttr \<equiv> ''S3-Versions-del''"
abbreviation versionsAddAttr :: string where
  "versionsAddAttr \<equiv> ''S3-Versions-add''"
abbreviation versionsDeleteMarkAttr :: string where
  "versionsDeleteMarkAttr \<equiv> ''S3-Versions-delete-mark''"
abbreviation delMarkFullObject :: string where
  "delMarkFullObject \<equiv> ''*''"

text \<open>
  Modelled from the spec: the constant \<open>versionsUnversionedAttr\<close> is declared outside the given
  sources; it names the "unversioned" flag header.
\<close>

abbreviation versionsUnversionedAttr :: string where
  "versionsUnversionedAttr \<equiv> ''S3-Versions-unversioned''"

subsection \<open>String helpers of the Go standard library\<close>

text \<open>\<open>strings.Split(s, ",")\<close>: always at least one piece.\<close>

fun split_comma :: "string \<Rightarrow> string list" where
  "split_comma [] = [[]]"
| "split_comma (c # cs) =
     (if c = CHR '','' then [] # split_comma cs
      else (case split_comma cs of [] \<Rightarrow> [[c]] | w # ws \<Rightarrow> (c # w) # ws))"

text \<open>\<open>strings.Join(xs, ",")\<close>.\<close>

fun join_comma :: "string list \<Rightarrow> string" where
  "join_comma [] = []"
| "join_comma [x] = x"
| "join_comma (x # y # ys) = x @ '','' @ join_comma (y # ys)"

definition splitVersions :: "string \<Rightarrow> string list" where
  "splitVersions header = (if length header = 0 then [] else split_comma header)"

fun contains :: "string list \<Rightarrow> string \<Rightarrow> bool" where
  "contains [] elem = False"
| "contains (item # list) elem = (if elem = item then True else contains list elem)"

section \<open>Version sets\<close>

record objectVersions =
  name :: string
  objects :: "ObjectInfo list"
  addList :: "string list"
  delList :: "string list"
  isSorted :: bool

definition newObjectVersions :: "string \<Rightarrow> objectVersions" where
  "newObjectVersions n =
     \<lparr>name = n, objects = [], addList = [], delList = [], isSorted = False\<rparr>"

text \<open>The two loops of \<open>appendVersion\<close>: append each id that the list does not hold yet.\<close>

fun appendMissing :: "string list \<Rightarrow> string list \<Rightarrow> string list" where
  "appendMissing list [] = list"
| "appendMissing list (x # xs) =
     appendMissing (if \<not> contains list x then list @ [x] else list) xs"

definition addVersOf :: "ObjectInfo \<Rightarrow> string list" where
  "addVersOf oi = splitVersions (hdr oi versionsAddAttr) @ [Version oi]"

definition delVersOf :: "ObjectInfo \<Rightarrow> string list" where
  "delVersOf oi = splitVersions (hdr oi versionsDelAttr)"

definition appendVersion :: "objectVersions \<Rightarrow> ObjectInfo \<Rightarrow> objectVersions" where
  "appendVersion v oi =
     (let addVers = addVersOf oi;
          delVers = delVersOf oi
      in v\<lparr>objects := objects v @ [oi],
           addList := appendMissing (addList v) addVers,
           delList := appendMissing (delList v) delVers,
           isSorted := False\<rparr>)"

text \<open>Folding discovered versions into a set, in the order of discovery.\<close>

definition foldVersions :: "ObjectInfo list \<Rightarrow> objectVersions \<Rightarrow> objectVersions" where
  "foldVersions ois v = fold (\<lambda>oi w. appendVersion w oi) ois v"

text \<open>
  Modelled from the spec: \<open>getExistedVersions\<close> is declared outside the given sources. The
  existing versions are the ids of the add-list that the del-list does not hold.
\<close>

definition getExistedVersions :: "objectVersions \<Rightarrow> string list" where
  "getExistedVersions v = filter (\<lambda>add. \<not> contains (delList v) add) (addList v)"

subsection \<open>The total order and the lazy sort\<close>

definition less :: "ObjectInfo \<Rightarrow> ObjectInfo \<Rightarrow> bool" where
  "less ov1 ov2 =
     (if CreationEpoch ov1 = CreationEpoch ov2 then Version ov1 < Version ov2
      else CreationEpoch ov1 < CreationEpoch ov2)"

text \<open>
  \<open>sort.Slice\<close> rearranges the slice into an order in which no element is \<open>less\<close> than an
  earlier one. It is modelled by insertion sort; elements that tie under \<open>less\<close> (same epoch
  and same id) keep their relative order.
\<close>

fun insertBy :: "('a \<Rightarrow> 'a \<Rightarrow> bool) \<Rightarrow> 'a \<Rightarrow> 'a list \<Rightarrow> 'a list" where
  "insertBy lt x [] = [x]"
| "insertBy lt x (y # ys) = (if lt y x then y # insertBy lt x ys else x # y # ys)"

definition sortSlice :: "('a \<Rightarrow> 'a \<Rightarrow> bool) \<Rightarrow> 'a list \<Rightarrow> 'a list" where
  "sortSlice lt xs = foldr (insertBy lt) xs []"

definition sort_ov :: "objectVersions \<Rightarrow> objectVersions" where
  "sort_ov v =
     (if \<not> isSorted v then v\<lparr>objects := sortSlice less (objects v), isSorted := True\<rparr>
      else v)"

subsection \<open>Resolution of the current version and of the history\<close>

text \<open>
  The loop of \<open>getLast\<close>, over the objects from the last index down to index 0 (the argument
  is the sorted slice reversed).
\<close>

fun getLast_loop :: "string list \<Rightarrow> ObjectInfo list \<Rightarrow> ObjectInfo option" where
  "getLast_loop existedVersions [] = None"
| "getLast_loop existedVersions (obj # objs) =
     (if contains existedVersions (Version obj) then
        (let delMarkHeader = hdr obj versionsDeleteMarkAttr in
           if delMarkHeader = [] then Some obj
           else if delMarkHeader = delMarkFullObject then None
           else getLast_loop existedVersions objs)
      else getLast_loop existedVersions objs)"

text \<open>
  \<open>getLast\<close> sorts its receiver in place and returns a version or \<open>nil\<close>; the result is the
  value below and the receiver is left as \<open>sort_ov v\<close>.
\<close>

definition getLast :: "objectVersions \<Rightarrow> ObjectInfo option" where
  "getLast v =
     (if length (objects v) = 0 then None
      else (let w = sort_ov v;
                existedVersions = getExistedVersions w
            in getLast_loop existedVersions (rev (objects w))))"

definition getFiltered :: "objectVersions \<Rightarrow> ObjectInfo list" where
  "getFiltered v =
     (if length (objects v) = 0 then []
      else (let w = sort_ov v;
                existedVersions = getExistedVersions w
            in filter (\<lambda>version.
                 (let delMark = hdr version versionsDeleteMarkAttr in
                    contains existedVersions (Version version) \<and>
                    (delMark = delMarkFullObject \<or> delMark = [])))
               (objects w)))"

text \<open>
  The version sets a request can hold: a fresh one, one more version folded in, or the
  receiver of a resolution call (sorted in place).
\<close>

inductive reachable :: "objectVersions \<Rightarrow> bool" where
  reachable_new: "reachable (newObjectVersions n)"
| reachable_append: "reachable v \<Longrightarrow> reachable (appendVersion v oi)"
| reachable_sort: "reachable v \<Longrightarrow> reachable (sort_ov v)"

section \<open>Write-time header merge\<close>

text \<open>Reading a Go \<open>map[string]string\<close> at a missing key gives the empty string.\<close>

definition mapGet :: "(string \<rightharpoonup> string) \<Rightarrow> string \<Rightarrow> string" where
  "mapGet header k = (case header k of None \<Rightarrow> [] | Some s \<Rightarrow> s)"

text \<open>
  Modelled from the spec: the methods \<open>isEmpty\<close>, \<open>isAddListEmpty\<close> and \<open>unversioned\<close> of
  \<open>objectVersions\<close> are declared outside the given sources. A version set is empty when it
  holds no version; \<open>unversioned\<close> gives the prior versions marked "unversioned", that is the
  ones that carry the unversioned flag header.
\<close>

definition isEmpty :: "objectVersions \<Rightarrow> bool" where
  "isEmpty v \<longleftrightarrow> length (objects v) = 0"

definition isAddListEmpty :: "objectVersions \<Rightarrow> bool" where
  "isAddListEmpty v \<longleftrightarrow> length (addList v) = 0"

definition unversioned :: "objectVersions \<Rightarrow> ObjectInfo list" where
  "unversioned v = filter (\<lambda>version. Headers version versionsUnversionedAttr \<noteq> None) (objects v)"

definition getAddHeader :: "objectVersions \<Rightarrow> string" where
  "getAddHeader v = join_comma (addList v)"

definition getDelHeader :: "objectVersions \<Rightarrow> string" where
  "getDelHeader v = join_comma (delList v)"

text \<open>
  The loop over \<open>versions.unversioned()\<close>: it builds the comma-joined ids and collects the
  physical ids to delete. The first argument is the loop index.
\<close>

fun additionalDel_loop ::
  "nat \<Rightarrow> ObjectInfo list \<Rightarrow> string \<times> string list \<Rightarrow> string \<times> string list" where
  "additionalDel_loop i [] acc = acc"
| "additionalDel_loop i (del # rest) (additionalDel, idsToDeleteArr) =
     additionalDel_loop (Suc i) rest
       ((if i \<noteq> 0 then additionalDel @ '','' else additionalDel) @ Version del,
        idsToDeleteArr @ [ID del])"

text \<open>
  \<open>updateCRDT2PSetHeaders\<close> writes into the header map it is given (an allocated map) and
  returns the ids to delete; the model returns the updated map with them.
\<close>

definition updateCRDT2PSetHeaders ::
  "(string \<rightharpoonup> string) \<Rightarrow> objectVersions \<Rightarrow> bool \<Rightarrow> (string \<rightharpoonup> string) \<times> string list" where
  "updateCRDT2PSetHeaders header versions versioningEnabled =
     (let header1 = (if \<not> versioningEnabled then header(versionsUnversionedAttr \<mapsto> ''true'')
                     else header)
      in if isEmpty versions then (header1, [])
         else
           (let header2 = (if \<not> isAddListEmpty versions
                           then header1(versionsAddAttr \<mapsto> getAddHeader versions)
                           else header1)
            in if versioningEnabled then
                 (let versionsDeletedStr = getDelHeader versions;
                      delAttr = mapGet header2 versionsDelAttr
                  in if length delAttr \<noteq> 0 then
                       (if length versionsDeletedStr \<noteq> 0
                        then (header2(versionsDelAttr \<mapsto> versionsDeletedStr @ '','' @ delAttr), [])
                        else (header2(versionsDelAttr \<mapsto> delAttr), []))
                     else if length versionsDeletedStr \<noteq> 0
                       then (header2(versionsDelAttr \<mapsto> versionsDeletedStr), [])
                     else (header2, []))
               else
                 (let versionsDeletedStr = getDelHeader versions;
                      (additionalDel, idsToDeleteArr) =
                         additionalDel_loop 0 (unversioned versions) ([], []);
                      versionsDeletedStr' =
                        (if length additionalDel \<noteq> 0
                         then (if length versionsDeletedStr \<noteq> 0 then versionsDeletedStr @ '',''
                               else versionsDeletedStr) @ additionalDel
                         else versionsDeletedStr)
                  in if length versionsDeletedStr' \<noteq> 0
                     then (header2(versionsDelAttr \<mapsto> versionsDeletedStr'), idsToDeleteArr)
                     else (header2, idsToDeleteArr))))"

section \<open>Listing\<close>

subsection \<open>Parameters and results\<close>

record ListObjectsParamsCommon =
  Bucket :: string
  Delimiter :: string
  Encode :: string
  MaxKeys :: int
  Prefix :: string

record ListObjectsParamsV1 = ListObjectsParamsCommon +
  Marker :: string

record ListObjectsParamsV2 = ListObjectsParamsCommon +
  ContinuationToken :: string
  StartAfter :: string
  FetchOwner :: bool

text \<open>
  The parameter and result structs of the listings are declared outside the given sources;
  the records below hold the fields that the code reads and writes. The parameters of the
  version listing are the common ones and the two markers.
\<close>

record ListObjectVersionsParams = ListObjectsParamsCommon +
  KeyMarker :: string
  VersionIDMarker :: string

record ListObjectsInfo =
  Prefixes :: "string list"
  Objects :: "ObjectInfo list"
  IsTruncated :: bool

record ListObjectsInfoV1 = ListObjectsInfo +
  NextMarker :: string

record ListObjectsInfoV2 = ListObjectsInfo +
  NextContinuationToken :: string

record ObjectVersionInfo =
  Object :: ObjectInfo
  IsLatest :: bool

text \<open>
  The result of the version listing. Its field \<open>Version\<close> is named \<open>Version_entries\<close> here
  (the name \<open>Version\<close> is the method of \<open>ObjectInfo\<close>), and its markers carry the prefix
  \<open>res\<close> to keep them apart from the markers of the parameters.
\<close>

record ListObjectVersionsInfo =
  CommonPrefixes :: "string list"
  resIsTruncated :: bool
  resKeyMarker :: string
  NextKeyMarker :: string
  NextVersionIDMarker :: string
  Version_entries :: "ObjectVersionInfo list"
  DeleteMarker :: "ObjectVersionInfo list"
  resVersionIDMarker :: string

definition emptyInfoV1 :: ListObjectsInfoV1 where
  "emptyInfoV1 = \<lparr>Prefixes = [], Objects = [], IsTruncated = False, NextMarker = []\<rparr>"

definition emptyInfoV2 :: ListObjectsInfoV2 where
  "emptyInfoV2 = \<lparr>Prefixes = [], Objects = [], IsTruncated = False, NextContinuationToken = []\<rparr>"

definition emptyVersionsInfo :: ListObjectVersionsInfo where
  "emptyVersionsInfo =
     \<lparr>CommonPrefixes = [], resIsTruncated = False, resKeyMarker = [], NextKeyMarker = [],
      NextVersionIDMarker = [], Version_entries = [], DeleteMarker = [], resVersionIDMarker = []\<rparr>"

subsection \<open>Errors, indexing and slicing\<close>

text \<open>
  What a listing call can end with instead of a result: an error value that the code
  returns, or a run-time panic of an index or slice expression.
\<close>

datatype error =
    ErrAccessDenied
  | ErrOther string
  | PanicIndexOutOfRange
  | PanicSliceBounds
  | PanicMakeSliceCap

text \<open>\<open>xs[i]\<close> panics unless \<open>0 \<le> i < len(xs)\<close>.\<close>

definition indexAt :: "'a list \<Rightarrow> int \<Rightarrow> error + 'a" where
  "indexAt xs i =
     (if 0 \<le> i \<and> i < int (length xs) then Inr (xs ! nat i) else Inl PanicIndexOutOfRange)"

text \<open>
  \<open>xs[:k]\<close> panics unless \<open>0 \<le> k \<le> cap(xs)\<close>. The code takes it only where \<open>k < len(xs)\<close>
  holds, so the length stands for the capacity.
\<close>

definition sliceTo :: "'a list \<Rightarrow> int \<Rightarrow> error + 'a list" where
  "sliceTo xs k =
     (if 0 \<le> k \<and> k \<le> int (length xs) then Inr (take (nat k) xs) else Inl PanicSliceBounds)"

subsection \<open>Cursor application and triage\<close>

fun trimAfterObjectName_loop :: "string \<Rightarrow> ObjectInfo list \<Rightarrow> ObjectInfo list" where
  "trimAfterObjectName_loop startAfter [] = []"
| "trimAfterObjectName_loop startAfter (obj # objs) =
     (if Name obj > startAfter then obj # objs else trimAfterObjectName_loop startAfter objs)"

definition trimAfterObjectName :: "string \<Rightarrow> ObjectInfo list \<Rightarrow> ObjectInfo list" where
  "trimAfterObjectName startAfter objs =
     (if length objs \<noteq> 0 \<and> Name (last objs) \<le> startAfter then []
      else trimAfterObjectName_loop startAfter objs)"

fun trimAfterObjectID_loop :: "string \<Rightarrow> ObjectInfo list \<Rightarrow> ObjectInfo list" where
  "trimAfterObjectID_loop oid [] = []"
| "trimAfterObjectID_loop oid (obj # objs) =
     (if ID obj = oid then objs else trimAfterObjectID_loop oid objs)"

definition trimAfterObjectID :: "string \<Rightarrow> ObjectInfo list \<Rightarrow> ObjectInfo list" where
  "trimAfterObjectID oid objs =
     (if length objs \<noteq> 0 \<and> ID (last objs) = oid then []
      else trimAfterObjectID_loop oid objs)"

text \<open>
  The marker loop of \<open>ListObjectVersions\<close>: at the first object whose name and version id
  are both at least the markers, the slice is cut to start there and the loop ends; when
  the loop runs to the end, the slice stays as it is.
\<close>

fun versionMarker_loop :: "string \<Rightarrow> string \<Rightarrow> ObjectInfo list \<Rightarrow> ObjectInfo list option" where
  "versionMarker_loop keyMarker versionIDMarker [] = None"
| "versionMarker_loop keyMarker versionIDMarker (obj # objs) =
     (if Name obj \<ge> keyMarker \<and> Version obj \<ge> versionIDMarker then Some (obj # objs)
      else versionMarker_loop keyMarker versionIDMarker objs)"

definition applyVersionMarker :: "string \<Rightarrow> string \<Rightarrow> ObjectInfo list \<Rightarrow> ObjectInfo list" where
  "applyVersionMarker keyMarker versionIDMarker allObjects =
     (case versionMarker_loop keyMarker versionIDMarker allObjects of
        None \<Rightarrow> allObjects
      | Some rest \<Rightarrow> rest)"

definition triageObjects :: "ObjectInfo list \<Rightarrow> string list \<times> ObjectInfo list" where
  "triageObjects allObjects =
     (map Name (filter IsDir allObjects), filter (\<lambda>ov. \<not> IsDir ov) allObjects)"

definition triageVersions ::
  "ObjectVersionInfo list \<Rightarrow> ObjectVersionInfo list \<times> ObjectVersionInfo list" where
  "triageVersions objVersions =
     (if length objVersions = 0 then ([], [])
      else (filter (\<lambda>version. hdr (Object version) versionsDeleteMarkAttr \<noteq> delMarkFullObject)
              objVersions,
            filter (\<lambda>version. hdr (Object version) versionsDeleteMarkAttr = delMarkFullObject)
              objVersions))"

text \<open>
  The loop that builds the entries of the version listing: entry \<open>i\<close> is flagged when \<open>i\<close> is
  the last index or the next object has another name.
\<close>

fun markLatest :: "ObjectInfo list \<Rightarrow> ObjectVersionInfo list" where
  "markLatest [] = []"
| "markLatest [obj] = [\<lparr>Object = obj, IsLatest = True\<rparr>]"
| "markLatest (obj # next # objs) =
     \<lparr>Object = obj, IsLatest = (Name next \<noteq> Name obj)\<rparr> # markLatest (next # objs)"


subsection \<open>The layer and its collaborators\<close>

record BucketInfo =
  bktName :: string
  CID :: string

text \<open>The calls to the backend that a request issues, in order.\<close>

datatype call =
    SearchObject string string
  | GetObjectHeader string string

text \<open>
  The state of the layer as a request sees it. The backend pool answers a search (container
  id, name prefix) with an error message or object ids, and a head (container id, object id)
  with an error message or the object's metadata. \<open>GetBucketInfo\<close> and \<open>objectInfoFromMeta\<close>
  (which applies prefix and delimiter to the metadata of one object) are code outside the
  given sources and are taken as they come. The listing cache holds id lists per (container,
  prefix) and version lists per (container, prefix, delimiter); a missing entry of the
  latter reads as \<open>nil\<close>, which is the empty list. Failures to store into a cache are only
  logged by the code; the caches of the model always store.
\<close>

record layer =
  GetBucketInfo :: "string \<Rightarrow> error + BucketInfo"
  poolSearchObject :: "string \<Rightarrow> string \<Rightarrow> string + string list"
  poolGetObjectHeader :: "string \<Rightarrow> string \<Rightarrow> string + ObjectInfo"
  objectInfoFromMeta :: "BucketInfo \<Rightarrow> ObjectInfo \<Rightarrow> string \<Rightarrow> string \<Rightarrow> ObjectInfo option"
  listsCacheIDs :: "string \<times> string \<rightharpoonup> string list"
  listsCacheVersions :: "string \<times> string \<times> string \<Rightarrow> ObjectInfo list"
  objCache :: "string \<times> string \<rightharpoonup> ObjectInfo"
  calls :: "call list"

fun hasPrefix :: "string \<Rightarrow> string \<Rightarrow> bool" where
  "hasPrefix [] s = True"
| "hasPrefix (p # ps) [] = False"
| "hasPrefix (p # ps) (c # cs) = (p = c \<and> hasPrefix ps cs)"

text \<open>\<open>strings.Contains(s, substr)\<close>.\<close>

fun stringsContains :: "string \<Rightarrow> string \<Rightarrow> bool" where
  "stringsContains [] substr = (substr = [])"
| "stringsContains (c # cs) substr = (hasPrefix substr (c # cs) \<or> stringsContains cs substr)"

definition transformNeofsError :: "string \<Rightarrow> error" where
  "transformNeofsError err =
     (if stringsContains err ''access to operation'' \<and> stringsContains err ''is denied by''
      then ErrAccessDenied else ErrOther err)"

definition objectSearch :: "layer \<Rightarrow> string \<Rightarrow> string \<Rightarrow> (error + string list) \<times> layer" where
  "objectSearch n cid prefix =
     ((case poolSearchObject n cid prefix of
         Inl err \<Rightarrow> Inl (transformNeofsError err)
       | Inr ids \<Rightarrow> Inr ids),
      n\<lparr>calls := calls n @ [SearchObject cid prefix]\<rparr>)"

definition objectHead :: "layer \<Rightarrow> string \<Rightarrow> string \<Rightarrow> (error + ObjectInfo) \<times> layer" where
  "objectHead n cid oid =
     ((case poolGetObjectHeader n cid oid of
         Inl err \<Rightarrow> Inl (transformNeofsError err)
       | Inr obj \<Rightarrow> Inr obj),
      n\<lparr>calls := calls n @ [GetObjectHeader cid oid]\<rparr>)"

definition objectFromObjectsCacheOrNeoFS ::
  "layer \<Rightarrow> string \<Rightarrow> string \<Rightarrow> ObjectInfo option \<times> layer" where
  "objectFromObjectsCacheOrNeoFS n cid oid =
     (case objCache n (cid, oid) of
        Some meta \<Rightarrow> (Some meta, n)
      | None \<Rightarrow>
          (case objectHead n cid oid of
             (Inl err, n1) \<Rightarrow> (None, n1)
           | (Inr meta, n1) \<Rightarrow> (Some meta, n1\<lparr>objCache := (objCache n1)((cid, oid) \<mapsto> meta)\<rparr>)))"

definition isSystem :: "ObjectInfo \<Rightarrow> bool" where
  "isSystem obj \<longleftrightarrow>
     length (hdr obj objectSystemAttributeName) > 0 \<or> length (hdr obj attrVersionsIgnore) > 0"

text \<open>
  The Go map from names to version sets is an association list; the code reads it by key,
  or in sorted key order, or to sort what it collects, so the order of its entries does not
  show.
\<close>

type_synonym versionsMap = "(string \<times> objectVersions) list"

fun getAllObjectsVersions_loop ::
  "layer \<Rightarrow> BucketInfo \<Rightarrow> string \<Rightarrow> string \<Rightarrow> string list \<Rightarrow> versionsMap \<Rightarrow> versionsMap \<times> layer" where
  "getAllObjectsVersions_loop n bkt prefix delimiter [] versions = (versions, n)"
| "getAllObjectsVersions_loop n bkt prefix delimiter (oid # ids) versions =
     (case objectFromObjectsCacheOrNeoFS n (CID bkt) oid of
        (None, n1) \<Rightarrow> getAllObjectsVersions_loop n1 bkt prefix delimiter ids versions
      | (Some obj, n1) \<Rightarrow>
          (case objectInfoFromMeta n1 bkt obj prefix delimiter of
             None \<Rightarrow> getAllObjectsVersions_loop n1 bkt prefix delimiter ids versions
           | Some oi \<Rightarrow>
               if isSystem oi then getAllObjectsVersions_loop n1 bkt prefix delimiter ids versions
               else
                 (let objVersions =
                        (case map_of versions (Name oi) of
                           None \<Rightarrow> newObjectVersions (Name oi)
                         | Some ov \<Rightarrow> ov)
                  in getAllObjectsVersions_loop n1 bkt prefix delimiter ids
                       (AList.update (Name oi) (appendVersion objVersions oi) versions))))"

definition getAllObjectsVersions ::
  "layer \<Rightarrow> BucketInfo \<Rightarrow> string \<Rightarrow> string \<Rightarrow> (error + versionsMap) \<times> layer" where
  "getAllObjectsVersions n bkt prefix delimiter =
     (let cacheKey = (CID bkt, prefix) in
        case listsCacheIDs n cacheKey of
          Some ids \<Rightarrow>
            (case getAllObjectsVersions_loop n bkt prefix delimiter ids [] of
               (versions, n2) \<Rightarrow> (Inr versions, n2))
        | None \<Rightarrow>
            (case objectSearch n (CID bkt) prefix of
               (Inl err, n1) \<Rightarrow> (Inl err, n1)
             | (Inr ids, n1) \<Rightarrow>
                 (case getAllObjectsVersions_loop
                         (n1\<lparr>listsCacheIDs := (listsCacheIDs n1)(cacheKey \<mapsto> ids)\<rparr>)
                         bkt prefix delimiter ids [] of
                    (versions, n2) \<Rightarrow> (Inr versions, n2))))"

fun lastVersions :: "versionsMap \<Rightarrow> ObjectInfo list" where
  "lastVersions [] = []"
| "lastVersions ((k, v) # versions) =
     (case getLast v of
        None \<Rightarrow> lastVersions versions
      | Some lastVersion \<Rightarrow> lastVersion # lastVersions versions)"

definition listSortedObjects ::
  "layer \<Rightarrow> BucketInfo \<Rightarrow> string \<Rightarrow> string \<Rightarrow> (error + ObjectInfo list) \<times> layer" where
  "listSortedObjects n bkt prefix delimiter =
     (case getAllObjectsVersions n bkt prefix delimiter of
        (Inl err, n1) \<Rightarrow> (Inl err, n1)
      | (Inr versions, n1) \<Rightarrow>
          (Inr (sortSlice (\<lambda>a b. Name a < Name b) (lastVersions versions)), n1))"

definition listAllObjects ::
  "layer \<Rightarrow> 'a ListObjectsParamsCommon_scheme \<Rightarrow> (error + ObjectInfo list) \<times> layer" where
  "listAllObjects n p =
     (case GetBucketInfo n (Bucket p) of
        Inl err \<Rightarrow> (Inl err, n)
      | Inr bkt \<Rightarrow> listSortedObjects n bkt (Prefix p) (Delimiter p))"

subsection \<open>The three listings\<close>

text \<open>
  The truncation steps. \<open>MaxKeys\<close> is a Go \<open>int\<close>; the code compares it and subtracts one from
  it only after an index expression has accepted it, so no wrap-around can occur and it is
  an integer here.
\<close>

definition truncateV1 ::
  "ListObjectsInfoV1 \<Rightarrow> ObjectInfo list \<Rightarrow> int \<Rightarrow> error + ListObjectsInfoV1 \<times> ObjectInfo list" where
  "truncateV1 result allObjects maxKeys =
     (if int (length allObjects) > maxKeys then
        (case sliceTo allObjects maxKeys of
           Inl e \<Rightarrow> Inl e
         | Inr kept \<Rightarrow>
             (case indexAt kept (int (length kept) - 1) of
                Inl e \<Rightarrow> Inl e
              | Inr lastObj \<Rightarrow>
                  Inr (result\<lparr>IsTruncated := True, NextMarker := Name lastObj\<rparr>, kept)))
      else Inr (result, allObjects))"

definition truncateV2 ::
  "ListObjectsInfoV2 \<Rightarrow> ObjectInfo list \<Rightarrow> int \<Rightarrow> error + ListObjectsInfoV2 \<times> ObjectInfo list" where
  "truncateV2 result allObjects maxKeys =
     (if int (length allObjects) > maxKeys then
        (case sliceTo allObjects maxKeys of
           Inl e \<Rightarrow> Inl e
         | Inr kept \<Rightarrow>
             (case indexAt kept (int (length kept) - 1) of
                Inl e \<Rightarrow> Inl e
              | Inr lastObj \<Rightarrow>
                  Inr (result\<lparr>IsTruncated := True, NextContinuationToken := ID lastObj\<rparr>, kept)))
      else Inr (result, allObjects))"

definition truncateVersions ::
  "ListObjectVersionsInfo \<Rightarrow> ObjectInfo list \<Rightarrow> int
     \<Rightarrow> error + ListObjectVersionsInfo \<times> ObjectInfo list" where
  "truncateVersions res allObjects maxKeys =
     (if int (length allObjects) > maxKeys then
        (case indexAt allObjects maxKeys of
           Inl e \<Rightarrow> Inl e
         | Inr nextObj \<Rightarrow>
             (case sliceTo allObjects maxKeys of
                Inl e \<Rightarrow> Inl e
              | Inr kept \<Rightarrow>
                  (case indexAt kept (maxKeys - 1) of
                     Inl e \<Rightarrow> Inl e
                   | Inr lastObj \<Rightarrow>
                       Inr (res\<lparr>resIsTruncated := True,
                                NextKeyMarker := Name nextObj,
                                NextVersionIDMarker := Version nextObj,
                                resKeyMarker := Name lastObj,
                                resVersionIDMarker := Version lastObj\<rparr>, kept))))
      else Inr (res, allObjects))"

text \<open>
  The part of \<open>ListObjectsV1\<close> and of \<open>ListObjectsV2\<close> after the sorted objects have been
  obtained.
\<close>

definition listV1Result :: "ListObjectsParamsV1 \<Rightarrow> ObjectInfo list \<Rightarrow> error + ListObjectsInfoV1" where
  "listV1Result p allObjects =
     (if length allObjects = 0 then Inr emptyInfoV1
      else
        (let trimmed = (if Marker p \<noteq> [] then trimAfterObjectName (Marker p) allObjects
                        else allObjects)
         in case truncateV1 emptyInfoV1 trimmed (MaxKeys p) of
              Inl e \<Rightarrow> Inl e
            | Inr (result, kept) \<Rightarrow>
                Inr (result\<lparr>Prefixes := fst (triageObjects kept),
                            Objects := snd (triageObjects kept)\<rparr>)))"

definition listV2Result :: "ListObjectsParamsV2 \<Rightarrow> ObjectInfo list \<Rightarrow> error + ListObjectsInfoV2" where
  "listV2Result p allObjects =
     (if length allObjects = 0 then Inr emptyInfoV2
      else
        (let trimmed1 = (if ContinuationToken p \<noteq> []
                         then trimAfterObjectID (ContinuationToken p) allObjects
                         else allObjects);
             trimmed = (if StartAfter p \<noteq> [] then trimAfterObjectName (StartAfter p) trimmed1
                        else trimmed1)
         in case truncateV2 emptyInfoV2 trimmed (MaxKeys p) of
              Inl e \<Rightarrow> Inl e
            | Inr (result, kept) \<Rightarrow>
                Inr (result\<lparr>Prefixes := fst (triageObjects kept),
                            Objects := snd (triageObjects kept)\<rparr>)))"

definition ListObjectsV1 ::
  "layer \<Rightarrow> ListObjectsParamsV1 \<Rightarrow> (error + ListObjectsInfoV1) \<times> layer" where
  "ListObjectsV1 n p =
     (if MaxKeys p = 0 then (Inr emptyInfoV1, n)
      else
        (case listAllObjects n p of
           (Inl err, n1) \<Rightarrow> (Inl err, n1)
         | (Inr allObjects, n1) \<Rightarrow> (listV1Result p allObjects, n1)))"

definition ListObjectsV2 ::
  "layer \<Rightarrow> ListObjectsParamsV2 \<Rightarrow> (error + ListObjectsInfoV2) \<times> layer" where
  "ListObjectsV2 n p =
     (if MaxKeys p = 0 then (Inr emptyInfoV2, n)
      else
        (case listAllObjects n p of
           (Inl err, n1) \<Rightarrow> (Inl err, n1)
         | (Inr allObjects, n1) \<Rightarrow> (listV2Result p allObjects, n1)))"

text \<open>
  The version lists of all names, in sorted name order and, within a name, in the order of
  \<open>getFiltered\<close>.
\<close>

definition allFiltered :: "versionsMap \<Rightarrow> ObjectInfo list" where
  "allFiltered versions =
     concat (map (\<lambda>k. case map_of versions k of None \<Rightarrow> [] | Some v \<Rightarrow> getFiltered v)
                 (sortSlice (<) (map fst versions)))"

text \<open>The part of \<open>ListObjectVersions\<close> after the objects have been obtained.\<close>

definition listVersionsResult ::
  "ListObjectVersionsParams \<Rightarrow> ObjectInfo list \<Rightarrow> error + ListObjectVersionsInfo" where
  "listVersionsResult p allObjects =
     (let marked = applyVersionMarker (KeyMarker p) (VersionIDMarker p) allObjects;
          res = emptyVersionsInfo\<lparr>CommonPrefixes := fst (triageObjects marked)\<rparr>
      in case truncateVersions res (snd (triageObjects marked)) (MaxKeys p) of
           Inl e \<Rightarrow> Inl e
         | Inr (res1, kept) \<Rightarrow>
             Inr (res1\<lparr>Version_entries := fst (triageVersions (markLatest kept)),
                       DeleteMarker := snd (triageVersions (markLatest kept))\<rparr>))"

text \<open>
  \<open>make([]*ObjectInfo, 0, cap)\<close> panics ("makeslice: cap out of range") when the capacity is
  negative or when the slice would take more bytes than the runtime allocates: on a 64-bit
  target that is \<open>2^48\<close> bytes, so \<open>2^45\<close> pointers. Whether the machine has the memory for a
  capacity that the runtime accepts is outside the model.
\<close>

definition makeSliceCapOK :: "int \<Rightarrow> bool" where
  "makeSliceCapOK c \<longleftrightarrow> 0 \<le> c \<and> c \<le> 2 ^ 45"

text \<open>
  \<open>createKey\<close>, which is outside the given sources, is taken to succeed: the key of the
  cached version list is the container id with prefix and delimiter. On a cache miss the
  code allocates the object slice with capacity \<open>MaxKeys\<close>.
\<close>

definition ListObjectVersions ::
  "layer \<Rightarrow> ListObjectVersionsParams \<Rightarrow> (error + ListObjectVersionsInfo) \<times> layer" where
  "ListObjectVersions n p =
     (case GetBucketInfo n (Bucket p) of
        Inl err \<Rightarrow> (Inl err, n)
      | Inr bkt \<Rightarrow>
          (let cacheKey = (CID bkt, Prefix p, Delimiter p);
               cached = listsCacheVersions n cacheKey
           in if cached = [] then
                (case getAllObjectsVersions n bkt (Prefix p) (Delimiter p) of
                   (Inl err, n1) \<Rightarrow> (Inl err, n1)
                 | (Inr versions, n1) \<Rightarrow>
                     if \<not> makeSliceCapOK (MaxKeys p) then (Inl PanicMakeSliceCap, n1)
                     else
                       (let allObjects = allFiltered versions
                        in (listVersionsResult p allObjects,
                            n1\<lparr>listsCacheVersions :=
                                  (listsCacheVersions n1)(cacheKey := allObjects)\<rparr>)))
              else (listVersionsResult p cached, n)))"

section \<open>The rules as the specification words them\<close>

text \<open>
  The specification's wording of \<open>getLast\<close>: scan the ordered versions from newest to oldest,
  skip the ids outside the existing-set, and answer with the first remaining version unless
  its delete mark is the full-object sentinel.
\<close>

definition getLast_spec :: "objectVersions \<Rightarrow> ObjectInfo option" where
  "getLast_spec v =
     (case find (\<lambda>obj. contains (getExistedVersions v) (Version obj))
             (rev (sortSlice less (objects v))) of
        None \<Rightarrow> None
      | Some obj \<Rightarrow>
          if hdr obj versionsDeleteMarkAttr = delMarkFullObject then None else Some obj)"

text \<open>
  The specification's wording of \<open>getFiltered\<close>: every version whose id is in the
  existing-set, in the total order.
\<close>

definition getFiltered_spec :: "objectVersions \<Rightarrow> ObjectInfo list" where
  "getFiltered_spec v =
     filter (\<lambda>obj. contains (getExistedVersions v) (Version obj)) (sortSlice less (objects v))"

text \<open>
  The specification's wording of the cursor of the version listing: the elements strictly
  after the (key name, version id) marker in the order of the listing.
\<close>

definition trimAfterPair_spec :: "string \<Rightarrow> string \<Rightarrow> ObjectInfo list \<Rightarrow> ObjectInfo list" where
  "trimAfterPair_spec keyMarker versionIDMarker objs =
     filter (\<lambda>obj. (keyMarker, versionIDMarker) < (Name obj, Version obj)) objs"

text \<open>
  The specification's wording of the next cursor: the first element past the truncation
  point.
\<close>

definition firstPastTruncation_spec :: "ObjectInfo list \<Rightarrow> int \<Rightarrow> ObjectInfo" where
  "firstPastTruncation_spec allObjects maxKeys = allObjects ! nat maxKeys"

subsection \<open>Auxiliary notions for the proofs\<close>

text \<open>
  A version that resolution and history take into account: its id is in the existing-set
  and its delete-mark header is empty (a live payload version) or the full-object sentinel
  (a delete marker). A version whose delete mark names one specific id is passed over.
\<close>

definition visibleVersion :: "string list \<Rightarrow> ObjectInfo \<Rightarrow> bool" where
  "visibleVersion existedVersions obj \<longleftrightarrow>
     contains existedVersions (Version obj) \<and>
     (hdr obj versionsDeleteMarkAttr = [] \<or> hdr obj versionsDeleteMarkAttr = delMarkFullObject)"

text \<open>The sort key that \<open>less\<close> compares: creation epoch first, then version id.\<close>

definition vkey :: "ObjectInfo \<Rightarrow> nat \<times> string" where
  "vkey oi = (CreationEpoch oi, Version oi)"

section \<open>Example objects\<close>

text \<open>
  The versions of the spec's own example: \<open>A\<close> written in epoch 1 and \<open>B\<close> in epoch 2 with no
  deletions, \<open>C\<close> a full-object delete mark written in epoch 3, and \<open>D\<close> the object that a
  delete of the specific version \<open>A\<close> writes in epoch 3.
\<close>

definition mkObject :: "string \<Rightarrow> string \<Rightarrow> nat \<Rightarrow> (string \<times> string) list \<Rightarrow> ObjectInfo" where
  "mkObject i n e hs = \<lparr>ID = i, Name = n, CreationEpoch = e, Headers = map_of hs, IsDir = False\<rparr>"

definition exA :: ObjectInfo where
  "exA = mkObject ''A'' ''k'' 1 []"

definition exB :: ObjectInfo where
  "exB = mkObject ''B'' ''k'' 2 [(versionsAddAttr, ''A'')]"

definition exC :: ObjectInfo where
  "exC = mkObject ''C'' ''k'' 3
     [(versionsAddAttr, ''A,B''), (versionsDeleteMarkAttr, delMarkFullObject)]"

definition exD :: ObjectInfo where
  "exD = mkObject ''D'' ''k'' 3
     [(versionsAddAttr, ''A''), (versionsDelAttr, ''A''), (versionsDeleteMarkAttr, ''A'')]"

text \<open>Version sets built from them by folding, as \<open>headVersions\<close> does.\<close>

definition vsAB :: objectVersions where
  "vsAB = foldVersions [exA, exB] (newObjectVersions ''k'')"
definition vsABC :: objectVersions where
  "vsABC = foldVersions [exA, exB, exC] (newObjectVersions ''k'')"
definition vsAD :: objectVersions where
  "vsAD = foldVersions [exA, exD] (newObjectVersions ''k'')"

definition exU :: ObjectInfo where
  "exU = mkObject ''U'' ''k'' 1 [(versionsUnversionedAttr, ''true'')]"

definition vsABD :: objectVersions where
  "vsABD = foldVersions [exA, exB, exD] (newObjectVersions ''k'')"

text \<open>
  The headers of a request that deletes the specific version \<open>B\<close>: the delete header and the
  delete-mark header both name it.
\<close>

definition exDeleteB :: "string \<rightharpoonup> string" where
  "exDeleteB = [versionsDelAttr \<mapsto> ''B'', versionsDeleteMarkAttr \<mapsto> ''B'']"

definition vsU :: objectVersions where
  "vsU = foldVersions [exU] (newObjectVersions ''k'')"

subsection \<open>Example layer\<close>

definition exBucket :: BucketInfo where
  "exBucket = \<lparr>bktName = ''b'', CID = ''cid''\<rparr>"

text \<open>A layer with empty caches over a backend that holds the ids it is given.\<close>

definition exLayer :: "ObjectInfo list \<Rightarrow> layer" where
  "exLayer stored =
     \<lparr>GetBucketInfo = (\<lambda>b. if b = ''b'' then Inr exBucket else Inl (ErrOther ''no such bucket'')),
      poolSearchObject = (\<lambda>cid prefix. Inr (map ID stored)),
      poolGetObjectHeader =
        (\<lambda>cid oid. case find (\<lambda>obj. ID obj = oid) stored of
                      None \<Rightarrow> Inl ''object not found''
                    | Some obj \<Rightarrow> Inr obj),
      objectInfoFromMeta = (\<lambda>bkt obj prefix delimiter. Some obj),
      listsCacheIDs = Map.empty,
      listsCacheVersions = (\<lambda>k. []),
      objCache = Map.empty,
      calls = []\<rparr>"

definition exParamsV1 :: "int \<Rightarrow> string \<Rightarrow> ListObjectsParamsV1" where
  "exParamsV1 maxKeys marker =
     \<lparr>Bucket = ''b'', Delimiter = [], Encode = [], MaxKeys = maxKeys, Prefix = [],
      Marker = marker\<rparr>"

definition exParamsV2 :: "int \<Rightarrow> string \<Rightarrow> ListObjectsParamsV2" where
  "exParamsV2 maxKeys token =
     \<lparr>Bucket = ''b'', Delimiter = [], Encode = [], MaxKeys = maxKeys, Prefix = [],
      ContinuationToken = token, StartAfter = [], FetchOwner = False\<rparr>"

definition exParamsVersions :: "int \<Rightarrow> string \<Rightarrow> string \<Rightarrow> ListObjectVersionsParams" where
  "exParamsVersions maxKeys keyMarker versionIDMarker =
     \<lparr>Bucket = ''b'', Delimiter = [], Encode = [], MaxKeys = maxKeys, Prefix = [],
      KeyMarker = keyMarker, VersionIDMarker = versionIDMarker\<rparr>"

text \<open>Three live objects with the names \<open>a\<close>, \<open>b\<close>, \<open>c\<close>.\<close>

definition exOa :: ObjectInfo where
  "exOa = mkObject ''1'' ''a'' 1 []"
definition exOb :: ObjectInfo where
  "exOb = mkObject ''2'' ''b'' 1 []"
definition exOc :: ObjectInfo where
  "exOc = mkObject ''3'' ''c'' 1 []"

text \<open>
  A history of the key \<open>k\<close> after \<open>A\<close>: the full-object delete marker \<open>M\<close> written in epoch 2
  and the live version \<open>P\<close> written in epoch 3.
\<close>

definition exM :: ObjectInfo where
  "exM = mkObject ''M'' ''k'' 2 [(versionsDeleteMarkAttr, delMarkFullObject)]"
definition exP :: ObjectInfo where
  "exP = mkObject ''P'' ''k'' 3 []"

lemmas ex_defs =
  exA_def exB_def exC_def exD_def mkObject_def hdr_def Version_def
  splitVersions_def addVersOf_def delVersOf_def

lemmas ov_defs =
  foldVersions_def appendVersion_def newObjectVersions_def getExistedVersions_def
  sort_ov_def sortSlice_def less_def Let_def

lemmas hm_defs = updateCRDT2PSetHeaders_def isEmpty_def isAddListEmpty_def unversioned_def
  getAddHeader_def getDelHeader_def mapGet_def

lemmas layer_defs =
  ListObjectVersions_def ListObjectsV1_def ListObjectsV2_def listAllObjects_def
  listSortedObjects_def getAllObjectsVersions_def objectFromObjectsCacheOrNeoFS_def
  objectHead_def objectSearch_def isSystem_def allFiltered_def makeSliceCapOK_def
  exLayer_def exBucket_def exParamsV1_def exParamsV2_def exParamsVersions_def

lemmas result_defs =
  listV1Result_def listV2Result_def listVersionsResult_def truncateV1_def truncateV2_def
  truncateVersions_def indexAt_def sliceTo_def triageObjects_def triageVersions_def
  applyVersionMarker_def trimAfterObjectName_def trimAfterObjectID_def
  emptyInfoV1_def emptyInfoV2_def emptyVersionsInfo_def

lemmas exO_defs = exOa_def exOb_def exOc_def mkObject_def Version_def hdr_def

section \<open>Facts about the helpers\<close>

lemma contains_iff: "contains list elem \<longleftrightarrow> elem \<in> set list"
  by (induction list) auto

lemma set_appendMissing: "set (appendMissing list xs) = set list \<union> set xs"
  by (induction xs arbitrary: list) (auto simp: contains_iff)

lemma appendMissing_subset: "set xs \<subseteq> set list \<Longrightarrow> appendMissing list xs = list"
  by (induction xs arbitrary: list) (auto simp: contains_iff)

lemma set_getExistedVersions:
  "set (getExistedVersions v) = set (addList v) - set (delList v)"
  by (auto simp: getExistedVersions_def contains_iff)

lemma addList_foldVersions:
  "set (addList (foldVersions ois v)) = set (addList v) \<union> (\<Union>oi\<in>set ois. set (addVersOf oi))"
  unfolding foldVersions_def
  by (induction ois arbitrary: v) (auto simp: appendVersion_def Let_def set_appendMissing)

lemma delList_foldVersions:
  "set (delList (foldVersions ois v)) = set (delList v) \<union> (\<Union>oi\<in>set ois. set (delVersOf oi))"
  unfolding foldVersions_def
  by (induction ois arbitrary: v) (auto simp: appendVersion_def Let_def set_appendMissing)

subsection \<open>The sort and the reachable version sets\<close>

lemma less_vkey: "less a b \<longleftrightarrow> vkey a < vkey b"
  by (auto simp: less_def vkey_def less_prod_def)

lemma insertBy_less: "insertBy less x ys = insort_key vkey x ys"
  by (induction ys) (auto simp: less_vkey)

lemma sortSlice_less: "sortSlice less xs = sort_key vkey xs"
proof -
  have "insertBy less = insort_key vkey"
    by (intro ext) (rule insertBy_less)
  then show ?thesis
    by (simp add: sortSlice_def sort_key_def)
qed

lemma ascending_vkey: "sorted_wrt (\<lambda>a b. \<not> less b a) xs \<longleftrightarrow> sorted (map vkey xs)"
  by (simp add: sorted_map less_vkey not_less)

lemma sortSlice_ascending: "sorted_wrt (\<lambda>a b. \<not> less b a) (sortSlice less xs)"
  by (simp add: ascending_vkey sortSlice_less)

lemma mset_sortSlice: "mset (sortSlice less xs) = mset xs"
  by (simp add: sortSlice_less)

lemma set_sortSlice: "set (sortSlice less xs) = set xs"
  by (simp add: sortSlice_less)

lemma sortSlice_Nil_iff: "sortSlice less xs = [] \<longleftrightarrow> xs = []"
  using set_sortSlice [of xs] by (metis set_empty)

lemma reachable_sorted:
  "reachable v \<Longrightarrow> isSorted v \<Longrightarrow> sorted (map vkey (objects v))"
proof (induction rule: reachable.induct)
  case (reachable_new n)
  then show ?case by (simp add: newObjectVersions_def)
next
  case (reachable_append v oi)
  then show ?case by (simp add: appendVersion_def Let_def)
next
  case (reachable_sort v)
  then show ?case
    by (cases "isSorted v") (simp_all add: sort_ov_def sortSlice_less)
qed

lemma objects_sort_ov:
  assumes "reachable v"
  shows "objects (sort_ov v) = sortSlice less (objects v)"
proof (cases "isSorted v")
  case True
  with assms have "sorted (map vkey (objects v))"
    by (rule reachable_sorted)
  then have "sort_key vkey (objects v) = objects v"
    by (rule sort_key_id_if_sorted)
  with True show ?thesis
    by (simp add: sort_ov_def sortSlice_less)
next
  case False
  then show ?thesis by (simp add: sort_ov_def)
qed

lemma getExistedVersions_sort_ov: "getExistedVersions (sort_ov v) = getExistedVersions v"
  by (simp add: getExistedVersions_def sort_ov_def)

lemma getLast_loop_find:
  "getLast_loop ex xs =
     (case find (visibleVersion ex) xs of
        None \<Rightarrow> None
      | Some obj \<Rightarrow> if hdr obj versionsDeleteMarkAttr = delMarkFullObject then None else Some obj)"
  by (induction xs) (auto simp: visibleVersion_def Let_def)

lemma getLast_reachable:
  assumes "reachable v"
  shows "getLast v = getLast_loop (getExistedVersions v) (rev (sortSlice less (objects v)))"
proof (cases "objects v = []")
  case True
  then show ?thesis by (simp add: getLast_def sortSlice_def)
next
  case False
  with assms show ?thesis
    by (simp add: getLast_def Let_def objects_sort_ov getExistedVersions_sort_ov)
qed

lemma getFiltered_reachable:
  assumes "reachable v"
  shows "getFiltered v = filter (visibleVersion (getExistedVersions v)) (sortSlice less (objects v))"
proof (cases "objects v = []")
  case True
  then show ?thesis by (simp add: getFiltered_def sortSlice_def)
next
  case False
  with assms show ?thesis
    by (auto simp: getFiltered_def Let_def objects_sort_ov getExistedVersions_sort_ov
        visibleVersion_def intro: filter_cong)
qed

lemma reachable_foldVersions: "reachable v \<Longrightarrow> reachable (foldVersions ois v)"
  unfolding foldVersions_def
  by (induction ois arbitrary: v) (auto intro: reachable_append)

lemma reachable_vsAB: "reachable vsAB"
  unfolding vsAB_def by (intro reachable_foldVersions reachable_new)

subsection \<open>Replaying a version\<close>

lemma getLast_loop_remdups_adj: "getLast_loop ex (remdups_adj xs) = getLast_loop ex xs"
  by (induction xs rule: remdups_adj.induct) (auto simp: Let_def)

lemma sorted_map_remdups_adj:
  "sorted (map f xs) \<Longrightarrow> sorted (map f (remdups_adj xs))"
  by (induction xs rule: remdups_adj.induct) auto

lemma distinct_map_remdups_adj:
  fixes f :: "'a \<Rightarrow> 'b::linorder"
  shows "sorted (map f xs) \<Longrightarrow> inj_on f (set xs) \<Longrightarrow> distinct (map f (remdups_adj xs))"
proof (induction xs rule: remdups_adj.induct)
  case 1
  then show ?case by simp
next
  case (2 x)
  then show ?case by simp
next
  case (3 x y xs)
  show ?case
  proof (cases "x = y")
    case True
    with 3 show ?thesis by simp
  next
    case False
    from "3.prems" have d: "distinct (map f (remdups_adj (y # xs)))"
      using False "3.IH"(2) by simp
    from "3.prems"(2) False have "f x \<noteq> f y"
      by (auto simp: inj_on_def)
    moreover from "3.prems"(1) have "f x \<le> f y" and "\<forall>z\<in>set xs. f y \<le> f z"
      by auto
    ultimately have "\<forall>z\<in>set (y # xs). f x < f z"
      by fastforce
    then have "f x \<notin> f ` set (y # xs)"
      by fastforce
    with d False show ?thesis
      by simp
  qed
qed

lemma remdups_adj_sort_key_replay:
  fixes f :: "'a \<Rightarrow> 'b::linorder"
  assumes "oi \<in> set xs" and "inj_on f (set xs)"
  shows "remdups_adj (sort_key f (xs @ [oi])) = remdups_adj (sort_key f xs)"
proof (rule map_sorted_distinct_set_unique [where f = f])
  from assms(1) have s: "set (xs @ [oi]) = set xs"
    by auto
  show "inj_on f (set (remdups_adj (sort_key f (xs @ [oi]))) \<union> set (remdups_adj (sort_key f xs)))"
    using assms by (simp add: insert_absorb)
  show "sorted (map f (remdups_adj (sort_key f (xs @ [oi]))))"
    by (rule sorted_map_remdups_adj) simp
  show "sorted (map f (remdups_adj (sort_key f xs)))"
    by (rule sorted_map_remdups_adj) simp
  show "distinct (map f (remdups_adj (sort_key f (xs @ [oi]))))"
    by (rule distinct_map_remdups_adj) (use assms in \<open>simp_all add: insert_absorb\<close>)
  show "distinct (map f (remdups_adj (sort_key f xs)))"
    by (rule distinct_map_remdups_adj) (use assms in simp_all)
  show "set (remdups_adj (sort_key f (xs @ [oi]))) = set (remdups_adj (sort_key f xs))"
    using assms(1) by auto
qed

lemma inj_on_vkey: "inj_on Version A \<Longrightarrow> inj_on vkey A"
  by (auto simp: inj_on_def vkey_def)

lemma reachable_lists:
  "reachable v \<Longrightarrow> oi \<in> set (objects v) \<Longrightarrow>
     set (addVersOf oi) \<subseteq> set (addList v) \<and> set (delVersOf oi) \<subseteq> set (delList v)"
proof (induction arbitrary: oi rule: reachable.induct)
  case (reachable_new n)
  then show ?case by (simp add: newObjectVersions_def)
next
  case (reachable_append v x)
  then show ?case
    by (auto simp: appendVersion_def Let_def set_appendMissing)
next
  case (reachable_sort v)
  then show ?case
    by (cases "isSorted v") (simp_all add: sort_ov_def set_sortSlice)
qed

lemma appendVersion_replay:
  assumes "reachable v" and "oi \<in> set (objects v)"
  shows "appendVersion v oi = v\<lparr>objects := objects v @ [oi], isSorted := False\<rparr>"
proof -
  from reachable_lists [OF assms]
  have "appendMissing (addList v) (addVersOf oi) = addList v"
    and "appendMissing (delList v) (delVersOf oi) = delList v"
    by (simp_all add: appendMissing_subset)
  then show ?thesis
    by (simp add: appendVersion_def Let_def)
qed

subsection \<open>The header merge with versioning disabled\<close>

lemma additionalDel_loop_ids:
  "snd (additionalDel_loop i dels (s, ids)) = ids @ map ID dels"
  by (induction dels arbitrary: i s ids) simp_all

lemma updateCRDT2PSetHeaders_disabled:
  assumes "\<not> isEmpty versions"
  shows "fst (updateCRDT2PSetHeaders header versions False) versionsUnversionedAttr = Some ''true''"
    and "\<not> isAddListEmpty versions \<Longrightarrow>
           fst (updateCRDT2PSetHeaders header versions False) versionsAddAttr
             = Some (getAddHeader versions)"
    and "snd (updateCRDT2PSetHeaders header versions False) = map ID (unversioned versions)"
proof -
  obtain s ids where l: "additionalDel_loop 0 (unversioned versions) ([], []) = (s, ids)"
    by (cases "additionalDel_loop 0 (unversioned versions) ([], [])")
  from additionalDel_loop_ids [of 0 "unversioned versions" "[]" "[]"] l
  have i: "ids = map ID (unversioned versions)"
    by simp
  show "fst (updateCRDT2PSetHeaders header versions False) versionsUnversionedAttr = Some ''true''"
    using assms by (simp add: updateCRDT2PSetHeaders_def Let_def l)
  show "snd (updateCRDT2PSetHeaders header versions False) = map ID (unversioned versions)"
    using assms by (simp add: updateCRDT2PSetHeaders_def Let_def l i)
  show "fst (updateCRDT2PSetHeaders header versions False) versionsAddAttr
             = Some (getAddHeader versions)" if "\<not> isAddListEmpty versions"
    using assms that by (simp add: updateCRDT2PSetHeaders_def Let_def l)
qed

lemma updateCRDT2PSetHeaders_unversioned_example:
  "updateCRDT2PSetHeaders Map.empty vsU False =
     ([versionsUnversionedAttr \<mapsto> ''true'', versionsAddAttr \<mapsto> ''U'', versionsDelAttr \<mapsto> ''U''],
      [''U''])"
  by (simp add: vsU_def exU_def ex_defs ov_defs hm_defs)

subsection \<open>Cursors\<close>

lemma trimAfterObjectName_loop_sorted:
  "sorted (map Name objs) \<Longrightarrow>
     trimAfterObjectName_loop startAfter objs = filter (\<lambda>obj. startAfter < Name obj) objs"
proof (induction objs)
  case Nil
  then show ?case by simp
next
  case (Cons x xs)
  show ?case
  proof (cases "startAfter < Name x")
    case True
    with Cons.prems have "\<forall>y\<in>set xs. startAfter < Name y"
      by auto
    then have "filter (\<lambda>obj. startAfter < Name obj) xs = xs"
      by (simp add: filter_id_conv)
    with True show ?thesis by simp
  next
    case False
    with Cons show ?thesis by simp
  qed
qed

lemma sorted_map_le_last:
  fixes f :: "'a \<Rightarrow> 'b::linorder"
  shows "sorted (map f xs) \<Longrightarrow> x \<in> set xs \<Longrightarrow> f x \<le> f (last xs)"
  by (induction xs) (auto split: if_splits)

lemma trimAfterObjectName_sorted:
  assumes "sorted (map Name objs)"
  shows "trimAfterObjectName startAfter objs = filter (\<lambda>obj. startAfter < Name obj) objs"
proof (cases "length objs \<noteq> 0 \<and> Name (last objs) \<le> startAfter")
  case True
  have "\<forall>x\<in>set objs. \<not> startAfter < Name x"
  proof
    fix x assume "x \<in> set objs"
    with assms have "Name x \<le> Name (last objs)"
      by (rule sorted_map_le_last)
    with True show "\<not> startAfter < Name x"
      by auto
  qed
  then have "filter (\<lambda>obj. startAfter < Name obj) objs = []"
    by (simp add: filter_empty_conv)
  with True show ?thesis
    by (simp add: trimAfterObjectName_def)
next
  case False
  then have "trimAfterObjectName startAfter objs = trimAfterObjectName_loop startAfter objs"
    by (auto simp: trimAfterObjectName_def)
  with assms show ?thesis
    by (simp add: trimAfterObjectName_loop_sorted)
qed

lemma trimAfterObjectID_loop_eq:
  "trimAfterObjectID_loop oid objs = tl (dropWhile (\<lambda>obj. ID obj \<noteq> oid) objs)"
  by (induction objs) auto

lemma dropWhile_last_distinct:
  "distinct (map ID objs) \<Longrightarrow> objs \<noteq> [] \<Longrightarrow> ID (last objs) = oid \<Longrightarrow>
     dropWhile (\<lambda>obj. ID obj \<noteq> oid) objs = [last objs]"
proof (induction objs)
  case Nil
  then show ?case by simp
next
  case (Cons x xs)
  show ?case
  proof (cases "xs = []")
    case True
    with Cons.prems show ?thesis by simp
  next
    case False
    with Cons.prems have "last xs \<in> set xs" and "ID (last xs) = oid"
      by simp_all
    with Cons.prems(1) have "ID x \<noteq> oid"
      by (metis distinct.simps(2) image_eqI list.simps(9) set_map)
    with Cons False show ?thesis
      by simp
  qed
qed

lemma trimAfterObjectID_distinct:
  assumes "distinct (map ID objs)"
  shows "trimAfterObjectID oid objs = tl (dropWhile (\<lambda>obj. ID obj \<noteq> oid) objs)"
proof (cases "length objs \<noteq> 0 \<and> ID (last objs) = oid")
  case True
  with assms have "dropWhile (\<lambda>obj. ID obj \<noteq> oid) objs = [last objs]"
    by (intro dropWhile_last_distinct) auto
  with True show ?thesis
    by (simp add: trimAfterObjectID_def)
next
  case False
  then show ?thesis
    by (auto simp: trimAfterObjectID_def trimAfterObjectID_loop_eq)
qed

lemma versionMarker_loop_eq:
  "versionMarker_loop km vm objs =
     (if list_ex (\<lambda>obj. km \<le> Name obj \<and> vm \<le> Version obj) objs
      then Some (dropWhile (\<lambda>obj. \<not> (km \<le> Name obj \<and> vm \<le> Version obj)) objs)
      else None)"
  by (induction objs) auto

text \<open>
  On a sequence sorted by (key name, version id), the marker loop of the version listing
  finds first the element that the markers name.
\<close>

lemma dropWhile_marker_sorted:
  assumes "sorted (map (\<lambda>obj. (Name obj, Version obj)) objs)"
    and "list_ex (\<lambda>obj. Name obj = km \<and> Version obj = vm) objs"
  shows "dropWhile (\<lambda>obj. \<not> (km \<le> Name obj \<and> vm \<le> Version obj)) objs =
           filter (\<lambda>obj. (km, vm) \<le> (Name obj, Version obj)) objs"
  using assms
proof (induction objs)
  case Nil
  then show ?case by simp
next
  case (Cons x xs)
  show ?case
  proof (cases "km \<le> Name x \<and> vm \<le> Version x")
    case True
    then have x: "(km, vm) \<le> (Name x, Version x)"
      by (auto simp: less_eq_prod_def)
    from Cons.prems(1) have "\<forall>y\<in>set xs. (Name x, Version x) \<le> (Name y, Version y)"
      by simp
    with x have "\<forall>y\<in>set xs. (km, vm) \<le> (Name y, Version y)"
      by (meson order_trans)
    then have "filter (\<lambda>obj. (km, vm) \<le> (Name obj, Version obj)) xs = xs"
      by (simp add: filter_id_conv)
    with True x show ?thesis
      by simp
  next
    case False
    with Cons.prems(2) have m: "list_ex (\<lambda>obj. Name obj = km \<and> Version obj = vm) xs"
      by auto
    then obtain y where "y \<in> set xs" and "Name y = km" and "Version y = vm"
      by (auto simp: list_ex_iff)
    with Cons.prems(1) have "(Name x, Version x) \<le> (km, vm)"
      by auto
    with False have "\<not> (km, vm) \<le> (Name x, Version x)"
      by (auto simp: less_eq_prod_def)
    moreover from Cons.prems(1) have "sorted (map (\<lambda>obj. (Name obj, Version obj)) xs)"
      by simp
    ultimately show ?thesis
      using False m Cons.IH by simp
  qed
qed

lemma applyVersionMarker_sorted:
  assumes "sorted (map (\<lambda>obj. (Name obj, Version obj)) objs)"
    and "list_ex (\<lambda>obj. Name obj = km \<and> Version obj = vm) objs"
  shows "applyVersionMarker km vm objs =
           filter (\<lambda>obj. (km, vm) \<le> (Name obj, Version obj)) objs"
proof -
  from assms(2) have "list_ex (\<lambda>obj. km \<le> Name obj \<and> vm \<le> Version obj) objs"
    by (auto simp: list_ex_iff)
  then have a: "applyVersionMarker km vm objs =
               dropWhile (\<lambda>obj. \<not> (km \<le> Name obj \<and> vm \<le> Version obj)) objs"
    by (simp add: applyVersionMarker_def versionMarker_loop_eq)
  show ?thesis
    unfolding a using assms by (rule dropWhile_marker_sorted)
qed

subsection \<open>Truncation\<close>

lemma truncateV1_pos:
  assumes "0 < maxKeys" and "maxKeys < int (length allObjects)"
  shows "truncateV1 result allObjects maxKeys =
           Inr (result\<lparr>IsTruncated := True, NextMarker := Name (allObjects ! (nat maxKeys - 1))\<rparr>,
                take (nat maxKeys) allObjects)"
proof -
  from assms have l: "length (take (nat maxKeys) allObjects) = nat maxKeys"
    by simp
  from assms have "nat (int (nat maxKeys) - 1) = nat maxKeys - 1"
    by simp
  with assms l show ?thesis
    by (simp add: truncateV1_def sliceTo_def indexAt_def)
qed

lemma truncateV2_pos:
  assumes "0 < maxKeys" and "maxKeys < int (length allObjects)"
  shows "truncateV2 result allObjects maxKeys =
           Inr (result\<lparr>IsTruncated := True,
                       NextContinuationToken := ID (allObjects ! (nat maxKeys - 1))\<rparr>,
                take (nat maxKeys) allObjects)"
proof -
  from assms have l: "length (take (nat maxKeys) allObjects) = nat maxKeys"
    by simp
  from assms have "nat (int (nat maxKeys) - 1) = nat maxKeys - 1"
    by simp
  with assms l show ?thesis
    by (simp add: truncateV2_def sliceTo_def indexAt_def)
qed

lemma truncateVersions_pos:
  assumes "0 < maxKeys" and "maxKeys < int (length allObjects)"
  shows "truncateVersions res allObjects maxKeys =
           Inr (res\<lparr>resIsTruncated := True,
                    NextKeyMarker := Name (allObjects ! nat maxKeys),
                    NextVersionIDMarker := Version (allObjects ! nat maxKeys),
                    resKeyMarker := Name (allObjects ! (nat maxKeys - 1)),
                    resVersionIDMarker := Version (allObjects ! (nat maxKeys - 1))\<rparr>,
                take (nat maxKeys) allObjects)"
proof -
  from assms have l: "length (take (nat maxKeys) allObjects) = nat maxKeys"
    by simp
  from assms have "nat (maxKeys - 1) = nat maxKeys - 1" and "nat maxKeys - 1 < nat maxKeys"
    by simp_all
  with assms l show ?thesis
    by (simp add: truncateVersions_def sliceTo_def indexAt_def)
qed

lemma truncate_not_longer:
  assumes "int (length allObjects) \<le> maxKeys"
  shows "truncateV1 r1 allObjects maxKeys = Inr (r1, allObjects)"
    and "truncateV2 r2 allObjects maxKeys = Inr (r2, allObjects)"
    and "truncateVersions r3 allObjects maxKeys = Inr (r3, allObjects)"
  using assms by (simp_all add: truncateV1_def truncateV2_def truncateVersions_def)

lemma truncateVersions_nonpositive:
  assumes "maxKeys \<le> 0" and "maxKeys < int (length allObjects)"
  shows "truncateVersions res allObjects maxKeys = Inl PanicIndexOutOfRange"
proof (cases "maxKeys = 0")
  case True
  with assms show ?thesis
    by (simp add: truncateVersions_def indexAt_def sliceTo_def)
next
  case False
  with assms have "maxKeys < 0" by simp
  with assms show ?thesis
    by (simp add: truncateVersions_def indexAt_def)
qed

lemma ListObjectsV1_zero: "MaxKeys p = 0 \<Longrightarrow> ListObjectsV1 n p = (Inr emptyInfoV1, n)"
  by (simp add: ListObjectsV1_def)

lemma ListObjectsV2_zero: "MaxKeys p = 0 \<Longrightarrow> ListObjectsV2 n p = (Inr emptyInfoV2, n)"
  by (simp add: ListObjectsV2_def)

subsection \<open>Entries of the version listing\<close>

lemma length_markLatest: "length (markLatest objs) = length objs"
  by (induction objs rule: markLatest.induct) simp_all

lemma markLatest_nth:
  "i < length objs \<Longrightarrow>
     markLatest objs ! i =
       \<lparr>Object = objs ! i,
        IsLatest = (Suc i = length objs \<or> Name (objs ! Suc i) \<noteq> Name (objs ! i))\<rparr>"
proof (induction objs arbitrary: i rule: markLatest.induct)
  case 1
  then show ?case by simp
next
  case (2 obj)
  then show ?case by simp
next
  case (3 obj nxt objs)
  then show ?case
    by (cases i) simp_all
qed

lemma markLatest_eq:
  "markLatest kept =
     map (\<lambda>i. \<lparr>Object = kept ! i,
                IsLatest = (Suc i = length kept \<or> Name (kept ! Suc i) \<noteq> Name (kept ! i))\<rparr>)
         [0..<length kept]"
  by (rule nth_equalityI) (simp_all add: length_markLatest markLatest_nth)

text \<open>What \<open>ListObjectVersions\<close> returns is the result built from the cached or the collected list.\<close>

lemma ListObjectVersions_cached:
  assumes "GetBucketInfo n (Bucket p) = Inr bkt"
    and "listsCacheVersions n (CID bkt, Prefix p, Delimiter p) \<noteq> []"
  shows "ListObjectVersions n p =
           (listVersionsResult p (listsCacheVersions n (CID bkt, Prefix p, Delimiter p)), n)"
  using assms by (simp add: ListObjectVersions_def Let_def)

lemma ListObjectVersions_collected:
  assumes "GetBucketInfo n (Bucket p) = Inr bkt"
    and "listsCacheVersions n (CID bkt, Prefix p, Delimiter p) = []"
    and "getAllObjectsVersions n bkt (Prefix p) (Delimiter p) = (Inr versions, n1)"
    and "makeSliceCapOK (MaxKeys p)"
  shows "fst (ListObjectVersions n p) = listVersionsResult p (allFiltered versions)"
  using assms by (simp add: ListObjectVersions_def Let_def)

lemma ListObjectVersions_make_panics:
  assumes "GetBucketInfo n (Bucket p) = Inr bkt"
    and "listsCacheVersions n (CID bkt, Prefix p, Delimiter p) = []"
    and "getAllObjectsVersions n bkt (Prefix p) (Delimiter p) = (Inr versions, n1)"
    and "\<not> makeSliceCapOK (MaxKeys p)"
  shows "ListObjectVersions n p = (Inl PanicMakeSliceCap, n1)"
  using assms by (simp add: ListObjectVersions_def Let_def)

section \<open>Resolution of the current version\<close>

text \<open>
  C1, as the code has it. For every version set that the code can hold, \<open>getLast\<close> scans the
  versions in the total order (creation epoch ascending, version id as tie-break) from
  newest to oldest. It passes over every version whose id is not in the existing-set and
  every version whose delete-mark header names one specific version id. The first version
  that remains is returned when its delete-mark header is empty; the answer is "not found"
  when that header is the full-object sentinel, and when no version remains.
\<close>

theorem getLast_resolution:
  assumes "reachable v"
  shows "mset (sortSlice less (objects v)) = mset (objects v)
       \<and> sorted_wrt (\<lambda>a b. \<not> less b a) (sortSlice less (objects v))
       \<and> getLast v =
           (case find (visibleVersion (getExistedVersions v)) (rev (sortSlice less (objects v))) of
              None \<Rightarrow> None
            | Some obj \<Rightarrow>
                if hdr obj versionsDeleteMarkAttr = delMarkFullObject then None else Some obj)"
  using assms
  by (simp add: mset_sortSlice sortSlice_ascending getLast_reachable getLast_loop_find)

theorem getLast_resolution_witness:
  "reachable vsAB \<and> getLast vsAB = Some exB"
proof -
  from getLast_resolution [OF reachable_vsAB]
  have "getLast vsAB =
          (case find (visibleVersion (getExistedVersions vsAB)) (rev (sortSlice less (objects vsAB))) of
             None \<Rightarrow> None
           | Some obj \<Rightarrow>
               if hdr obj versionsDeleteMarkAttr = delMarkFullObject then None else Some obj)"
    by blast
  also have "\<dots> = Some exB"
    by (simp add: vsAB_def ex_defs ov_defs visibleVersion_def)
  finally show ?thesis
    using reachable_vsAB by simp
qed

text \<open>
  The claim as the specification words it fails when the newest version of the existing-set
  is the object written by a delete of one specific version: the wording answers with that
  object, the code passes over it.
\<close>

theorem getLast_first_eligible_counterexample:
  "getLast vsAD \<noteq> getLast_spec vsAD \<and> getLast vsAD = None \<and> getLast_spec vsAD = Some exD"
  by (simp add: vsAD_def getLast_def getLast_spec_def ex_defs ov_defs)

section \<open>Write-time header merge with versioning disabled\<close>

text \<open>
  C2. With versioning disabled and a non-empty prior version set, the del-list written by
  the merge is to hold the prior del-list, the ids of the prior unversioned versions and the
  id named by an incoming delete header. The code does not keep the incoming id: for the
  prior versions \<open>A\<close>, \<open>B\<close>, \<open>D\<close> with del-list \<open>A\<close> and incoming headers that name \<open>B\<close>, the
  del-list written is \<open>A\<close> alone and nothing is returned for deletion, whereas the branch for
  enabled versioning writes \<open>A,B\<close> for the same input.
\<close>

theorem updateCRDT2PSetHeaders_drops_incoming_del:
  "splitVersions (mapGet (fst (updateCRDT2PSetHeaders exDeleteB vsABD False)) versionsDelAttr)
     = [''A'']
   \<and> snd (updateCRDT2PSetHeaders exDeleteB vsABD False) = []
   \<and> splitVersions (mapGet (fst (updateCRDT2PSetHeaders exDeleteB vsABD True)) versionsDelAttr)
     = [''A'', ''B'']"
proof -
  have v: "vsABD = \<lparr>name = ''k'', objects = [exA, exB, exD], addList = [''A'', ''B'', ''D''],
      delList = [''A''], isSorted = False\<rparr>"
    by (simp add: vsABD_def ex_defs ov_defs)
  have a: "fst (updateCRDT2PSetHeaders exDeleteB vsABD False) versionsDelAttr = Some ''A''"
    by (simp add: v hm_defs exDeleteB_def) (simp add: ex_defs)
  have b: "snd (updateCRDT2PSetHeaders exDeleteB vsABD False) = []"
    by (simp add: v hm_defs exDeleteB_def) (simp add: ex_defs)
  have c: "fst (updateCRDT2PSetHeaders exDeleteB vsABD True) versionsDelAttr = Some ''A,B''"
    by (simp add: v hm_defs exDeleteB_def)
  show ?thesis
    by (simp add: mapGet_def splitVersions_def a b c)
qed

section \<open>Filtered history\<close>

text \<open>
  C3, as the code has it. For every version set that the code can hold, \<open>getFiltered\<close> returns,
  in the total order, exactly the versions whose id is in the existing-set and whose
  delete-mark header is empty or the full-object sentinel: each returned version is a live
  payload version or a delete marker. A version of the existing-set whose delete mark names
  one specific version id is left out.
\<close>

theorem getFiltered_history:
  assumes "reachable v"
  shows "getFiltered v = filter (visibleVersion (getExistedVersions v)) (sortSlice less (objects v))
       \<and> sorted_wrt (\<lambda>a b. \<not> less b a) (getFiltered v)
       \<and> list_all (\<lambda>obj. contains (getExistedVersions v) (Version obj)
             \<and> (hdr obj versionsDeleteMarkAttr = [] \<or> hdr obj versionsDeleteMarkAttr = delMarkFullObject))
           (getFiltered v)"
proof -
  have f: "getFiltered v = filter (visibleVersion (getExistedVersions v)) (sortSlice less (objects v))"
    using assms by (rule getFiltered_reachable)
  have "sorted_wrt (\<lambda>a b. \<not> less b a) (getFiltered v)"
    unfolding f by (rule sorted_wrt_filter) (rule sortSlice_ascending)
  moreover have "list_all (\<lambda>obj. contains (getExistedVersions v) (Version obj)
             \<and> (hdr obj versionsDeleteMarkAttr = [] \<or> hdr obj versionsDeleteMarkAttr = delMarkFullObject))
           (getFiltered v)"
    unfolding f by (simp add: list_all_iff visibleVersion_def)
  ultimately show ?thesis
    using f by simp
qed

theorem getFiltered_history_witness:
  "reachable vsABC \<and> getFiltered vsABC = [exA, exB, exC]"
proof -
  have r: "reachable vsABC"
    unfolding vsABC_def by (intro reachable_foldVersions reachable_new)
  from getFiltered_history [OF r]
  have "getFiltered vsABC =
          filter (visibleVersion (getExistedVersions vsABC)) (sortSlice less (objects vsABC))"
    by blast
  also have "\<dots> = [exA, exB, exC]"
    by (simp add: vsABC_def ex_defs ov_defs visibleVersion_def)
  finally show ?thesis
    using r by simp
qed

theorem getFiltered_every_eligible_counterexample:
  "getFiltered vsAD \<noteq> getFiltered_spec vsAD \<and> getFiltered vsAD = []
   \<and> getFiltered_spec vsAD = [exD]"
  by (simp add: vsAD_def getFiltered_def getFiltered_spec_def ex_defs ov_defs)

section \<open>Order independence of folding\<close>

text \<open>
  C4. Folding the same collection of physical versions into a version set in two different
  orders gives the same add-set, the same del-set and the same existing-set, and the
  existing-set is the union of the add-lists seen minus the union of the del-lists seen.
\<close>

theorem foldVersions_order_independent:
  assumes "mset xs = mset ys"
  shows "set (addList (foldVersions xs v)) = set (addList (foldVersions ys v))
       \<and> set (delList (foldVersions xs v)) = set (delList (foldVersions ys v))
       \<and> set (getExistedVersions (foldVersions xs v)) = set (getExistedVersions (foldVersions ys v))
       \<and> set (getExistedVersions (foldVersions xs v)) =
           (set (addList v) \<union> (\<Union>oi\<in>set xs. set (addVersOf oi)))
           - (set (delList v) \<union> (\<Union>oi\<in>set xs. set (delVersOf oi)))"
proof -
  from assms have "set xs = set ys"
    by (rule mset_eq_setD)
  then show ?thesis
    by (simp add: set_getExistedVersions addList_foldVersions delList_foldVersions)
qed

theorem foldVersions_order_independent_witness:
  "mset [exA, exB] = mset [exB, exA]
   \<and> set (getExistedVersions (foldVersions [exA, exB] (newObjectVersions ''k'')))
       = set (getExistedVersions (foldVersions [exB, exA] (newObjectVersions ''k'')))
   \<and> set (getExistedVersions (foldVersions [exA, exB] (newObjectVersions ''k''))) = {''A'', ''B''}"
proof -
  have h: "mset [exA, exB] = mset [exB, exA]"
    by simp
  have e: "set (getExistedVersions (foldVersions [exA, exB] (newObjectVersions ''k''))) = {''A'', ''B''}"
    by (auto simp: ex_defs ov_defs)
  from foldVersions_order_independent [OF h, of "newObjectVersions ''k''"]
  have "set (getExistedVersions (foldVersions [exA, exB] (newObjectVersions ''k'')))
      = set (getExistedVersions (foldVersions [exB, exA] (newObjectVersions ''k'')))"
    by blast
  with h e show ?thesis
    by simp
qed

section \<open>Idempotence under replay\<close>

text \<open>
  C5. For every version set that the code can hold and every physical version already
  folded into it, folding that version in again changes neither the existing versions nor
  the result of \<open>getLast\<close>. Version ids are unique among the physical versions, as the data
  model has it.
\<close>

theorem appendVersion_replay_idempotent:
  assumes "reachable v" and "oi \<in> set (objects v)" and "inj_on Version (set (objects v))"
  shows "getExistedVersions (appendVersion v oi) = getExistedVersions v
       \<and> getLast (appendVersion v oi) = getLast v"
proof -
  let ?w = "appendVersion v oi"
  have w: "?w = v\<lparr>objects := objects v @ [oi], isSorted := False\<rparr>"
    using assms(1,2) by (rule appendVersion_replay)
  have ex: "getExistedVersions ?w = getExistedVersions v"
    unfolding w by (simp add: getExistedVersions_def)
  have "reachable ?w"
    using assms(1) by (rule reachable_append)
  then have "getLast ?w = getLast_loop (getExistedVersions ?w) (rev (sortSlice less (objects ?w)))"
    by (rule getLast_reachable)
  also have "\<dots> = getLast_loop (getExistedVersions v) (rev (sort_key vkey (objects v @ [oi])))"
    unfolding ex sortSlice_less by (simp add: w)
  also have "\<dots> = getLast_loop (getExistedVersions v)
                    (remdups_adj (rev (sort_key vkey (objects v @ [oi]))))"
    by (simp only: getLast_loop_remdups_adj)
  also have "\<dots> = getLast_loop (getExistedVersions v)
                    (remdups_adj (rev (sort_key vkey (objects v))))"
    using remdups_adj_sort_key_replay [OF assms(2) inj_on_vkey [OF assms(3)]]
    by (simp only: remdups_adj_rev)
  also have "\<dots> = getLast_loop (getExistedVersions v) (rev (sort_key vkey (objects v)))"
    by (simp only: getLast_loop_remdups_adj)
  also have "\<dots> = getLast v"
    using getLast_reachable [OF assms(1)] by (simp add: sortSlice_less)
  finally show ?thesis
    using ex by simp
qed

theorem appendVersion_replay_idempotent_witness:
  "reachable vsAB \<and> exA \<in> set (objects vsAB) \<and> inj_on Version (set (objects vsAB))
   \<and> getExistedVersions (appendVersion vsAB exA) = getExistedVersions vsAB
   \<and> getLast (appendVersion vsAB exA) = getLast vsAB
   \<and> getLast vsAB = Some exB"
proof -
  have o: "objects vsAB = [exA, exB]"
    by (simp add: vsAB_def ov_defs)
  have m: "exA \<in> set (objects vsAB)"
    by (simp add: o)
  have i: "inj_on Version (set (objects vsAB))"
    by (simp add: o ex_defs)
  have l: "getLast vsAB = Some exB"
    by (simp add: vsAB_def getLast_def ex_defs ov_defs)
  from appendVersion_replay_idempotent [OF reachable_vsAB m i] reachable_vsAB m i l
  show ?thesis
    by simp
qed

section \<open>Listing with a max result count of zero\<close>

text \<open>
  C6. A listing with a max result count of zero is to return an empty, non-truncated result
  without a backend call. \<open>ListObjectsV1\<close> and \<open>ListObjectsV2\<close> do so (lemmas
  \<open>ListObjectsV1_zero\<close> and \<open>ListObjectsV2_zero\<close>); \<open>ListObjectVersions\<close> has no such guard. Over a
  backend that holds one object, with empty caches and a max result count of zero, it
  issues a search and a head call and then panics; over an empty backend it returns the
  empty result, after a search call.
\<close>

theorem ListObjectVersions_zero_max_keys:
  "calls (exLayer [exA]) = []
   \<and> calls (snd (ListObjectVersions (exLayer [exA]) (exParamsVersions 0 [] [])))
       = [SearchObject ''cid'' [], GetObjectHeader ''cid'' ''A'']
   \<and> fst (ListObjectVersions (exLayer [exA]) (exParamsVersions 0 [] [])) = Inl PanicIndexOutOfRange
   \<and> calls (snd (ListObjectVersions (exLayer []) (exParamsVersions 0 [] [])))
       = [SearchObject ''cid'' []]
   \<and> fst (ListObjectVersions (exLayer []) (exParamsVersions 0 [] [])) = Inr emptyVersionsInfo"
  by (simp add: layer_defs result_defs getFiltered_def ex_defs ov_defs)

section \<open>Cursor application\<close>

text \<open>
  C7, as the code has it. For a listing sequence sorted by name, the name marker (V1 marker,
  start-after) trims it to exactly the elements with a name strictly after the marker, and a
  marker at or past the last name gives the empty sequence. For a sequence with distinct
  ids, the continuation token trims it to the elements after the element with that id, and
  a token that is the id of the last element gives the empty sequence. For a version-listing
  sequence sorted by (key name, version id) and a (key name, version id) marker that names
  an element of the sequence, the sequence is trimmed to exactly the elements at or after
  the marker: it starts at the marked element, which is kept.
\<close>

theorem cursor_application:
  "(sorted (map Name objs) \<longrightarrow>
      trimAfterObjectName startAfter objs = filter (\<lambda>obj. startAfter < Name obj) objs)
   \<and> (objs \<noteq> [] \<and> Name (last objs) \<le> startAfter \<longrightarrow> trimAfterObjectName startAfter objs = [])
   \<and> (distinct (map ID objs) \<longrightarrow>
        trimAfterObjectID token objs = tl (dropWhile (\<lambda>obj. ID obj \<noteq> token) objs))
   \<and> (objs \<noteq> [] \<and> ID (last objs) = token \<longrightarrow> trimAfterObjectID token objs = [])
   \<and> (sorted (map (\<lambda>obj. (Name obj, Version obj)) objs)
        \<and> list_ex (\<lambda>obj. Name obj = keyMarker \<and> Version obj = versionIDMarker) objs \<longrightarrow>
        applyVersionMarker keyMarker versionIDMarker objs =
          filter (\<lambda>obj. (keyMarker, versionIDMarker) \<le> (Name obj, Version obj)) objs)"
proof -
  have a: "sorted (map Name objs) \<longrightarrow>
      trimAfterObjectName startAfter objs = filter (\<lambda>obj. startAfter < Name obj) objs"
    by (simp add: trimAfterObjectName_sorted)
  have b: "objs \<noteq> [] \<and> Name (last objs) \<le> startAfter \<longrightarrow> trimAfterObjectName startAfter objs = []"
    by (simp add: trimAfterObjectName_def)
  have c: "distinct (map ID objs) \<longrightarrow>
        trimAfterObjectID token objs = tl (dropWhile (\<lambda>obj. ID obj \<noteq> token) objs)"
    by (simp add: trimAfterObjectID_distinct)
  have d: "objs \<noteq> [] \<and> ID (last objs) = token \<longrightarrow> trimAfterObjectID token objs = []"
    by (simp add: trimAfterObjectID_def)
  have e: "sorted (map (\<lambda>obj. (Name obj, Version obj)) objs)
        \<and> list_ex (\<lambda>obj. Name obj = keyMarker \<and> Version obj = versionIDMarker) objs \<longrightarrow>
        applyVersionMarker keyMarker versionIDMarker objs =
          filter (\<lambda>obj. (keyMarker, versionIDMarker) \<le> (Name obj, Version obj)) objs"
    by (simp add: applyVersionMarker_sorted)
  from a b c d e show ?thesis
    by blast
qed

theorem cursor_application_witness:
  "sorted (map Name [exOa, exA, exB]) \<and> distinct (map ID [exOa, exA, exB])
   \<and> sorted (map (\<lambda>obj. (Name obj, Version obj)) [exOa, exA, exB])
   \<and> list_ex (\<lambda>obj. Name obj = ''k'' \<and> Version obj = ''B'') [exOa, exA, exB]
   \<and> trimAfterObjectName ''a'' [exOa, exA, exB] = [exA, exB]
   \<and> trimAfterObjectName ''k'' [exOa, exA, exB] = []
   \<and> trimAfterObjectID ''1'' [exOa, exA, exB] = [exA, exB]
   \<and> trimAfterObjectID ''B'' [exOa, exA, exB] = []
   \<and> applyVersionMarker ''k'' ''B'' [exOa, exA, exB] = [exB]
   \<and> applyVersionMarker ''k'' ''A'' [exOa, exA, exB] = [exA, exB]"
proof -
  let ?objs = "[exOa, exA, exB]"
  have s: "sorted (map Name ?objs)"
    by (simp add: exO_defs ex_defs)
  have d: "distinct (map ID ?objs)"
    by (simp add: exO_defs ex_defs)
  have p: "sorted (map (\<lambda>obj. (Name obj, Version obj)) ?objs)"
    by (simp add: exO_defs ex_defs)
  have l: "?objs \<noteq> [] \<and> Name (last ?objs) \<le> ''k''" "?objs \<noteq> [] \<and> ID (last ?objs) = ''B''"
    by (simp_all add: exO_defs ex_defs)
  have m: "list_ex (\<lambda>obj. Name obj = ''k'' \<and> Version obj = ''B'') ?objs"
    "list_ex (\<lambda>obj. Name obj = ''k'' \<and> Version obj = ''A'') ?objs"
    by (simp_all add: exO_defs ex_defs)
  from cursor_application [of ?objs "''a''" "''1''" "''k''" "''B''"] s d p m
  have "trimAfterObjectName ''a'' ?objs = filter (\<lambda>obj. ''a'' < Name obj) ?objs"
    and "trimAfterObjectID ''1'' ?objs = tl (dropWhile (\<lambda>obj. ID obj \<noteq> ''1'') ?objs)"
    and "applyVersionMarker ''k'' ''B'' ?objs =
          filter (\<lambda>obj. (''k'', ''B'') \<le> (Name obj, Version obj)) ?objs"
    by blast+
  then have a: "trimAfterObjectName ''a'' ?objs = [exA, exB]"
    and b: "trimAfterObjectID ''1'' ?objs = [exA, exB]"
    and c: "applyVersionMarker ''k'' ''B'' ?objs = [exB]"
    by (simp_all add: exO_defs ex_defs)
  from cursor_application [of ?objs "''k''" "''B''" "''k''" "''A''"] l p m
  have "trimAfterObjectName ''k'' ?objs = []" and "trimAfterObjectID ''B'' ?objs = []"
    and "applyVersionMarker ''k'' ''A'' ?objs =
          filter (\<lambda>obj. (''k'', ''A'') \<le> (Name obj, Version obj)) ?objs"
    by blast+
  then have e: "trimAfterObjectName ''k'' ?objs = []" "trimAfterObjectID ''B'' ?objs = []"
    "applyVersionMarker ''k'' ''A'' ?objs = [exA, exB]"
    by (simp_all add: exO_defs ex_defs)
  from s d p m(1) a b c e show ?thesis
    by simp
qed

text \<open>
  The claim as the specification words it fails for the version listing: with the marker
  on the last element the code keeps that element, and with the marker on an inner element
  the code keeps it too.
\<close>

theorem applyVersionMarker_inclusive_counterexample:
  "applyVersionMarker ''c'' ''3'' [exOa, exOb, exOc] = [exOc]
   \<and> trimAfterPair_spec ''c'' ''3'' [exOa, exOb, exOc] = []
   \<and> applyVersionMarker ''b'' ''2'' [exOa, exOb, exOc] = [exOb, exOc]
   \<and> trimAfterPair_spec ''b'' ''2'' [exOa, exOb, exOc] = [exOc]"
  by (simp add: applyVersionMarker_def trimAfterPair_spec_def exO_defs)

section \<open>Truncation and the next cursor\<close>

text \<open>
  C8, as the code has it. When the sequence is longer than a positive max result count, the
  result is marked truncated and holds the first max-count elements. In \<open>ListObjectsV1\<close> and
  \<open>ListObjectsV2\<close> the next cursor is the name, respectively the id, of the last element kept;
  in \<open>ListObjectVersions\<close> the next key and version-id markers are those of the first element
  past the truncation point, and the key and version-id markers of the result are those of
  the last element kept.
\<close>

theorem truncation_cursor:
  assumes "0 < maxKeys" and "maxKeys < int (length allObjects)"
  shows "truncateV1 r1 allObjects maxKeys =
           Inr (r1\<lparr>IsTruncated := True, NextMarker := Name (allObjects ! (nat maxKeys - 1))\<rparr>,
                take (nat maxKeys) allObjects)
       \<and> truncateV2 r2 allObjects maxKeys =
           Inr (r2\<lparr>IsTruncated := True,
                   NextContinuationToken := ID (allObjects ! (nat maxKeys - 1))\<rparr>,
                take (nat maxKeys) allObjects)
       \<and> truncateVersions r3 allObjects maxKeys =
           Inr (r3\<lparr>resIsTruncated := True,
                   NextKeyMarker := Name (allObjects ! nat maxKeys),
                   NextVersionIDMarker := Version (allObjects ! nat maxKeys),
                   resKeyMarker := Name (allObjects ! (nat maxKeys - 1)),
                   resVersionIDMarker := Version (allObjects ! (nat maxKeys - 1))\<rparr>,
                take (nat maxKeys) allObjects)"
  using assms by (simp only: truncateV1_pos truncateV2_pos truncateVersions_pos simp_thms)

theorem truncation_cursor_witness:
  "(0::int) < 2 \<and> 2 < int (length [exOa, exOb, exOc])
   \<and> truncateV1 emptyInfoV1 [exOa, exOb, exOc] 2 =
       Inr (emptyInfoV1\<lparr>IsTruncated := True, NextMarker := ''b''\<rparr>, [exOa, exOb])
   \<and> truncateV2 emptyInfoV2 [exOa, exOb, exOc] 2 =
       Inr (emptyInfoV2\<lparr>IsTruncated := True, NextContinuationToken := ''2''\<rparr>, [exOa, exOb])
   \<and> truncateVersions emptyVersionsInfo [exOa, exOb, exOc] 2 =
       Inr (emptyVersionsInfo\<lparr>resIsTruncated := True, NextKeyMarker := ''c'',
              NextVersionIDMarker := ''3'', resKeyMarker := ''b'', resVersionIDMarker := ''2''\<rparr>,
            [exOa, exOb])"
proof -
  have h: "(0::int) < 2" "2 < int (length [exOa, exOb, exOc])"
    by simp_all
  have n: "nat 2 = Suc (Suc 0)" "nat 2 - 1 = Suc 0"
    by simp_all
  from truncation_cursor [OF h, of emptyInfoV1 emptyInfoV2 emptyVersionsInfo] h
  show ?thesis
    by (simp add: n exO_defs)
qed

text \<open>
  The claim as the specification words it fails for the flat listings: with three objects
  and a max result count of one, the next cursor is taken from the first object, which is
  the last one kept, and not from the second, which is the first past the truncation point.
\<close>

theorem truncation_cursor_flat_counterexample:
  "truncateV1 emptyInfoV1 [exOa, exOb, exOc] 1 =
       Inr (emptyInfoV1\<lparr>IsTruncated := True, NextMarker := ''a''\<rparr>, [exOa])
   \<and> Name (firstPastTruncation_spec [exOa, exOb, exOc] 1) = ''b''
   \<and> truncateV2 emptyInfoV2 [exOa, exOb, exOc] 1 =
       Inr (emptyInfoV2\<lparr>IsTruncated := True, NextContinuationToken := ''1''\<rparr>, [exOa])
   \<and> ID (firstPastTruncation_spec [exOa, exOb, exOc] 1) = ''2''"
  by (simp add: truncateV1_def truncateV2_def sliceTo_def indexAt_def firstPastTruncation_spec_def
      exO_defs)

section \<open>The truncation step of the version listing\<close>

text \<open>
  C9. The truncation step of \<open>ListObjectVersions\<close> is to make only index and slice accesses
  that are in bounds, for every max result count, zero included. It does not: with one
  object and a max result count of zero, the slice is cut to length zero and then read at
  index \<open>-1\<close>, which panics. Lemma \<open>truncateVersions_nonpositive\<close> gives the same for every
  max result count that is not positive and below the length.
\<close>

theorem truncateVersions_zero_max_keys_panics:
  "truncateVersions emptyVersionsInfo [exA] 0 = Inl PanicIndexOutOfRange
   \<and> sliceTo [exA] 0 = Inr []
   \<and> indexAt ([] :: ObjectInfo list) (0 - 1) = Inl PanicIndexOutOfRange
   \<and> listVersionsResult (exParamsVersions 0 [] []) [exA] = Inl PanicIndexOutOfRange"
  by (simp add: result_defs exParamsVersions_def ex_defs)

section \<open>The latest flag of the version listing\<close>

text \<open>
  C10. In every result of \<open>ListObjectVersions\<close>, with the sorted output sequence being the
  sequence that the truncation step returns, the versions and the delete markers are the
  entries of that sequence, one per position and in its order, and the entry at a position
  is flagged \<open>IsLatest\<close> if and only if it is the last position or the object at the next
  position has another key name.
\<close>

theorem isLatest_last_of_name:
  assumes "truncateVersions
             (emptyVersionsInfo\<lparr>CommonPrefixes :=
                fst (triageObjects (applyVersionMarker (KeyMarker p) (VersionIDMarker p) allObjects))\<rparr>)
             (snd (triageObjects (applyVersionMarker (KeyMarker p) (VersionIDMarker p) allObjects)))
             (MaxKeys p) = Inr (res1, kept)"
  shows "listVersionsResult p allObjects =
           Inr (res1\<lparr>Version_entries :=
                       filter (\<lambda>e. hdr (Object e) versionsDeleteMarkAttr \<noteq> delMarkFullObject)
                         (map (\<lambda>i. \<lparr>Object = kept ! i,
                                     IsLatest = (Suc i = length kept
                                                 \<or> Name (kept ! Suc i) \<noteq> Name (kept ! i))\<rparr>)
                              [0..<length kept]),
                     DeleteMarker :=
                       filter (\<lambda>e. hdr (Object e) versionsDeleteMarkAttr = delMarkFullObject)
                         (map (\<lambda>i. \<lparr>Object = kept ! i,
                                     IsLatest = (Suc i = length kept
                                                 \<or> Name (kept ! Suc i) \<noteq> Name (kept ! i))\<rparr>)
                              [0..<length kept])\<rparr>)"
proof -
  have "listVersionsResult p allObjects =
          Inr (res1\<lparr>Version_entries := fst (triageVersions (markLatest kept)),
                    DeleteMarker := snd (triageVersions (markLatest kept))\<rparr>)"
    using assms by (simp add: listVersionsResult_def Let_def)
  moreover have "fst (triageVersions (markLatest kept)) =
      filter (\<lambda>e. hdr (Object e) versionsDeleteMarkAttr \<noteq> delMarkFullObject) (markLatest kept)"
    and "snd (triageVersions (markLatest kept)) =
      filter (\<lambda>e. hdr (Object e) versionsDeleteMarkAttr = delMarkFullObject) (markLatest kept)"
    by (simp_all add: triageVersions_def)
  ultimately show ?thesis
    by (simp only: markLatest_eq [symmetric])
qed

theorem isLatest_last_of_name_witness:
  "truncateVersions
     (emptyVersionsInfo\<lparr>CommonPrefixes :=
        fst (triageObjects (applyVersionMarker (KeyMarker (exParamsVersions 10 [] []))
               (VersionIDMarker (exParamsVersions 10 [] [])) [exOa, exA, exM, exP]))\<rparr>)
     (snd (triageObjects (applyVersionMarker (KeyMarker (exParamsVersions 10 [] []))
            (VersionIDMarker (exParamsVersions 10 [] [])) [exOa, exA, exM, exP])))
     (MaxKeys (exParamsVersions 10 [] [])) = Inr (emptyVersionsInfo, [exOa, exA, exM, exP])
   \<and> listVersionsResult (exParamsVersions 10 [] []) [exOa, exA, exM, exP] =
       Inr (emptyVersionsInfo
             \<lparr>Version_entries := [\<lparr>Object = exOa, IsLatest = True\<rparr>,
                                  \<lparr>Object = exA, IsLatest = False\<rparr>,
                                  \<lparr>Object = exP, IsLatest = True\<rparr>],
              DeleteMarker := [\<lparr>Object = exM, IsLatest = False\<rparr>]\<rparr>)"
proof -
  let ?p = "exParamsVersions 10 [] []"
  let ?objs = "[exOa, exA, exM, exP]"
  have h: "truncateVersions
     (emptyVersionsInfo\<lparr>CommonPrefixes :=
        fst (triageObjects (applyVersionMarker (KeyMarker ?p) (VersionIDMarker ?p) ?objs))\<rparr>)
     (snd (triageObjects (applyVersionMarker (KeyMarker ?p) (VersionIDMarker ?p) ?objs)))
     (MaxKeys ?p) = Inr (emptyVersionsInfo, ?objs)"
    by (simp add: truncateVersions_def triageObjects_def applyVersionMarker_def
        emptyVersionsInfo_def exParamsVersions_def exO_defs ex_defs exM_def exP_def)
  have u: "[0..<length ?objs] = [0, 1, 2, 3]"
    by (simp add: upt_rec)
  from isLatest_last_of_name [OF h]
  have "listVersionsResult ?p ?objs =
       Inr (emptyVersionsInfo
             \<lparr>Version_entries := [\<lparr>Object = exOa, IsLatest = True\<rparr>,
                                  \<lparr>Object = exA, IsLatest = False\<rparr>,
                                  \<lparr>Object = exP, IsLatest = True\<rparr>],
              DeleteMarker := [\<lparr>Object = exM, IsLatest = False\<rparr>]\<rparr>)"
    unfolding u by (simp add: exO_defs ex_defs exM_def exP_def)
  with h show ?thesis
    by simp
qed

end
